theory Spec2Isabelle
  imports Main "HOL-Library.Sublist" "HOL-Library.AList"
begin

section \<open>The RLM simulator of \<open>src/atris/research/rlm_simulation.py\<close>\<close>

text \<open>
  The development embeds the orchestration core of the simulator: the session state
  (\<open>REPLState\<close>), the sub-call \<open>llm_query\<close>, the execution pass \<open>execute_repl_code\<close>, the
  two parsers \<open>extract_code_blocks\<close> and \<open>check_final_answer\<close>, and the loop of \<open>run\<close>.

  Python text is a \<open>string\<close> in which every character is one code point below 256
  (Latin-1), Python integers are \<open>int\<close>, a Python \<open>dict\<close> is an association list with
  distinct keys in insertion order. Trace lines written by \<open>log\<close> and \<open>print\<close> to the
  terminal are not part of the model, except for the answer that \<open>run\<close> announces when
  it leaves the loop through \<open>break\<close>.

  A call of the source that is left through an exception nobody catches, or that never
  returns, has a value of its own in the model: an \<open>abort\<close>.
\<close>

datatype abort = Uncaught string | NoReturn

subsection \<open>Text helpers\<close>

text \<open>\<open>str.isspace\<close> below 256: tab, line feed, vertical tab, form feed, carriage return,
  the four separators \<open>0x1c\<close> to \<open>0x1f\<close>, the blank, next line \<open>0x85\<close> and the no-break
  space \<open>0xa0\<close>.\<close>

definition is_space :: "char \<Rightarrow> bool" where
  "is_space c =
     (c \<in> set [CHR 0x09, CHR 0x0A, CHR 0x0B, CHR 0x0C, CHR 0x0D,
                CHR 0x1C, CHR 0x1D, CHR 0x1E, CHR 0x1F, CHR 0x20, CHR 0x85, CHR 0xA0])"

text \<open>\<open>s.split()\<close>: the maximal runs of characters that are not white space.\<close>

function py_split :: "string \<Rightarrow> string list" where
  "py_split s =
     (case dropWhile is_space s of
        [] \<Rightarrow> []
      | c # cs \<Rightarrow> takeWhile (\<lambda>x. \<not> is_space x) (c # cs)
                # py_split (dropWhile (\<lambda>x. \<not> is_space x) (c # cs)))"
  by pat_completeness auto
termination
proof (relation "measure length")
  show "wf (measure length)" by simp
next
  fix s :: string and c cs
  assume h: "dropWhile is_space s = c # cs"
  have "\<not> is_space c" using h by (metis dropWhile_eq_Cons_conv)
  then have "length (dropWhile (\<lambda>x. \<not> is_space x) (c # cs)) \<le> length cs"
    by (simp add: length_dropWhile_le)
  moreover have "length (c # cs) \<le> length s"
    using h by (metis length_dropWhile_le)
  ultimately show "(dropWhile (\<lambda>x. \<not> is_space x) (c # cs), s) \<in> measure length"
    by simp
qed

text \<open>\<open>len(s.split())\<close>, the word count behind both token estimates.\<close>

definition word_count :: "string \<Rightarrow> int" where
  "word_count s = int (length (py_split s))"

text \<open>\<open>str(n)\<close> for an integer: decimal digits, with a minus sign below zero.\<close>

function str_nat :: "nat \<Rightarrow> string" where
  "str_nat n =
     (if n < 10 then [char_of (48 + n)]
      else str_nat (n div 10) @ [char_of (48 + n mod 10)])"
  by pat_completeness auto
termination
  by (relation "measure id") auto

definition str_int :: "int \<Rightarrow> string" where
  "str_int i = (if i < 0 then CHR ''-'' # str_nat (nat (- i)) else str_nat (nat i))"

subsection \<open>Values, objects and dictionaries\<close>

text \<open>
  The values a name can hold. \<open>RefV a\<close> is a reference to the object at address \<open>a\<close> of
  the store (a list, a dictionary, an instance of a class): two names that hold the same
  reference share the object, and a change made to it in place is seen through both.
  The store keeps of an object what \<open>str\<close> makes of it now: its text, or \<open>None\<close> when
  \<open>str\<close> of it raises. \<open>ObjV d\<close> stands for an object that no block changes in a way
  \<open>str\<close> shows (a module, a function), with its text \<open>d\<close>.
\<close>

type_synonym addr = nat

datatype pyval = NoneV | BoolV bool | IntV int | StrV string | ObjV string | RefV addr

type_synonym store = "(addr \<times> string option) list"

text \<open>\<open>str(value)\<close>. It raises for an integer of more than 4300 decimal digits (the
  limit CPython sets on the conversion) and for an object whose own \<open>__str__\<close>
  raises.\<close>

fun py_str :: "store \<Rightarrow> pyval \<Rightarrow> abort + string" where
  "py_str h NoneV = Inr ''None''"
| "py_str h (BoolV b) = Inr (if b then ''True'' else ''False'')"
| "py_str h (IntV i) =
     (if 4300 < length (str_nat (nat (abs i))) then Inl (Uncaught ''ValueError'')
      else Inr (str_int i))"
| "py_str h (StrV s) = Inr s"
| "py_str h (ObjV d) = Inr d"
| "py_str h (RefV a) =
     (case map_of h a of
        Some (Some t) \<Rightarrow> Inr t
      | _ \<Rightarrow> Inl (Uncaught ''raised by __str__''))"

type_synonym pydict = "(string \<times> pyval) list"

text \<open>\<open>d[k] = v\<close> is \<open>AList.update k v d\<close> (replace in place, or append at the end);
  \<open>d.get(k, default)\<close>, \<open>d.update(other)\<close> and \<open>list(d.keys())\<close> follow.\<close>

definition dict_get :: "pydict \<Rightarrow> string \<Rightarrow> pyval \<Rightarrow> pyval" where
  "dict_get d k dflt = (case map_of d k of Some v \<Rightarrow> v | None \<Rightarrow> dflt)"

definition dict_update :: "pydict \<Rightarrow> pydict \<Rightarrow> pydict" where
  "dict_update d other = fold (\<lambda>(k, v) acc. AList.update k v acc) other d"

definition dict_keys :: "pydict \<Rightarrow> string list" where
  "dict_keys d = map fst d"

subsection \<open>Session state\<close>

text \<open>The dataclass \<open>REPLState\<close>; its field \<open>context\<close> is \<open>context_str\<close> here. The last
  field is not one of the dataclass: it is the store of the Python process, with the
  objects that \<open>variables\<close> refers to.\<close>

record REPLState =
  context_str :: string
  variables :: pydict
  output_buffer :: string
  sub_call_count :: int
  total_tokens_root :: int
  total_tokens_sub :: int
  heap :: store

text \<open>\<open>REPLState(context=context)\<close>: every other field takes its default.\<close>

definition init_state :: "string \<Rightarrow> REPLState" where
  "init_state c =
     \<lparr>context_str = c, variables = [], output_buffer = [],
      sub_call_count = 0, total_tokens_root = 0, total_tokens_sub = 0, heap = []\<rparr>"

subsection \<open>The agent capability and the sub-call\<close>

text \<open>
  The agent is the module-level function the loop calls (\<open>simulated_llm\<close> in the
  source): prompt and sub-call flag in, response text out. The orchestration is
  stated for any such function.
\<close>

type_synonym agent = "string \<Rightarrow> bool \<Rightarrow> string"

text \<open>\<open>llm_query\<close>: one more sub-call, the word count of the prompt plus 50 more
  sub tokens, and the agent's answer on the sub-call path.\<close>

definition llm_query :: "agent \<Rightarrow> REPLState \<Rightarrow> string \<Rightarrow> string \<times> REPLState" where
  "llm_query llm st prompt =
     (let st1 = st\<lparr>sub_call_count := sub_call_count st + 1\<rparr>;
          st2 = st1\<lparr>total_tokens_sub := total_tokens_sub st1 + (word_count prompt + 50)\<rparr>
      in (llm prompt True, st2))"

subsection \<open>Executing a code block\<close>

text \<open>
  An exception a block can raise: \<open>ExceptionObj m\<close> is an instance of \<open>Exception\<close>, with
  \<open>m\<close> the text \<open>str(e)\<close> gives for it, or \<open>None\<close> when \<open>str(e)\<close> raises in turn;
  \<open>ExitObj name\<close> is an instance of \<open>BaseException\<close> that is not an \<open>Exception\<close>
  (\<open>SystemExit\<close>, \<open>KeyboardInterrupt\<close>, \<open>GeneratorExit\<close>), which \<open>except Exception\<close>
  does not catch.
\<close>

datatype pyexc = ExceptionObj "string option" | ExitObj string

text \<open>
  What Python's \<open>exec\<close> does with a code block is a script of the effects the block has
  on its surroundings, in the order it has them: text written to the capture buffer
  through the injected \<open>print\<close>, names bound or deleted in the global namespace, objects
  changed in place (or made) in the store, calls of the injected \<open>llm_query\<close> (the script
  continues with the response), and at the end normal completion, an exception, or
  \<open>Hang\<close> for a block that never returns. An interpreter maps the code text, the
  namespace it starts in and the store to that script. Code that reaches the simulator
  object itself through \<open>llm_query.__self__\<close> is outside the model.
\<close>

datatype script =
    Done
  | Raise pyexc
  | Hang
  | Write string script
  | Store string pyval script
  | Del string script
  | Mutate addr "string option" script
  | Call string "string \<Rightarrow> script"

type_synonym interp = "string \<Rightarrow> pydict \<Rightarrow> store \<Rightarrow> script"

text \<open>How a script ends.\<close>

datatype ending = Completed | Raised pyexc | Hung

text \<open>Running a script: the namespace, the capture buffer and the session state are
  threaded through.\<close>

primrec exec_script ::
  "agent \<Rightarrow> script \<Rightarrow> pydict \<Rightarrow> string \<Rightarrow> REPLState
     \<Rightarrow> ending \<times> pydict \<times> string \<times> REPLState" where
  "exec_script llm Done g out st = (Completed, g, out, st)"
| "exec_script llm (Raise e) g out st = (Raised e, g, out, st)"
| "exec_script llm Hang g out st = (Hung, g, out, st)"
| "exec_script llm (Write s k) g out st = exec_script llm k g (out @ s) st"
| "exec_script llm (Store x v k) g out st = exec_script llm k (AList.update x v g) out st"
| "exec_script llm (Del x k) g out st = exec_script llm k (AList.delete x g) out st"
| "exec_script llm (Mutate a t k) g out st =
     exec_script llm k g out (st\<lparr>heap := AList.update a t (heap st)\<rparr>)"
| "exec_script llm (Call p k) g out st =
     (let (r, st') = llm_query llm st p in exec_script llm (k r) g out st')"

text \<open>\<open>exec(code, exec_globals)\<close>: Python first stores the builtins module under
  \<open>__builtins__\<close> when the namespace has no such key, then runs the code.\<close>

definition py_exec ::
  "agent \<Rightarrow> interp \<Rightarrow> string \<Rightarrow> pydict \<Rightarrow> REPLState
     \<Rightarrow> ending \<times> pydict \<times> string \<times> REPLState" where
  "py_exec llm py code g st =
     (let g0 = (if ''__builtins__'' \<in> set (dict_keys g) then g
                else AList.update ''__builtins__'' (ObjV ''<module 'builtins' (built-in)>'') g)
      in exec_script llm (py code g0 (heap st)) g0 [] st)"

text \<open>The names \<open>execute_repl_code\<close> never saves.\<close>

definition reserved_names :: "string list" where
  "reserved_names = [''context'', ''llm_query'', ''print'', ''re'', ''json'', ''__builtins__'']"

text \<open>The loop \<open>for k, v in exec_globals.items()\<close> that saves the bindings.\<close>

definition save_variables :: "pydict \<Rightarrow> pydict \<Rightarrow> pydict" where
  "save_variables exec_globals vars =
     fold (\<lambda>(k, v) acc. if k \<in> set reserved_names then acc else AList.update k v acc)
       exec_globals vars"

text \<open>The namespace a pass starts in: the five injected bindings, then the session
  variables on top of them.\<close>

definition build_globals :: "REPLState \<Rightarrow> pydict" where
  "build_globals st =
     dict_update
       [(''context'', StrV (context_str st)),
        (''llm_query'', ObjV ''<bound method RLMSimulator.llm_query>''),
        (''print'', ObjV ''<function <lambda>>''),
        (''re'', ObjV ''<module 're'>''),
        (''json'', ObjV ''<module 'json'>'')]
       (variables st)"

text \<open>
  \<open>execute_repl_code\<close>, with the state it leaves behind. The bindings are saved only
  when \<open>exec\<close> returns. An \<open>Exception\<close> skips the saving, and \<open>Error: \<close> with its
  message is appended to what the block had printed; when \<open>str(e)\<close> raises while that
  message is formatted, the new exception leaves the handler. In these two cases the
  output replaces \<open>output_buffer\<close>. Any other exception is not caught, and a block that
  never returns keeps the call from returning.
\<close>

definition execute_repl_code ::
  "agent \<Rightarrow> interp \<Rightarrow> REPLState \<Rightarrow> string \<Rightarrow> (abort + string) \<times> REPLState" where
  "execute_repl_code llm py st code =
     (case py_exec llm py code (build_globals st) st of
        (Completed, exec_globals, captured, st1) \<Rightarrow>
          (let st2 = st1\<lparr>variables := save_variables exec_globals (variables st1)\<rparr>;
               output = captured
           in (Inr output, st2\<lparr>output_buffer := output\<rparr>))
      | (Raised (ExceptionObj (Some e)), exec_globals, captured, st1) \<Rightarrow>
          (let output = captured @ ''Error: '' @ e
           in (Inr output, st1\<lparr>output_buffer := output\<rparr>))
      | (Raised (ExceptionObj None), exec_globals, captured, st1) \<Rightarrow>
          (Inl (Uncaught ''raised by str(e)''), st1)
      | (Raised (ExitObj name), exec_globals, captured, st1) \<Rightarrow>
          (Inl (Uncaught name), st1)
      | (Hung, exec_globals, captured, st1) \<Rightarrow>
          (Inl NoReturn, st1))"

subsection \<open>Extracting code blocks\<close>

text \<open>The lazy group of \<open>```repl\n(.*?)```\<close> under \<open>re.DOTALL\<close>: the text up to the first
  closing fence, and what follows that fence.\<close>

fun until_fence :: "string \<Rightarrow> (string \<times> string) option" where
  "until_fence [] = None"
| "until_fence (c # cs) =
     (if prefix ''```'' (c # cs) then Some ([], drop 3 (c # cs))
      else map_option (\<lambda>(body, rest). (c # body, rest)) (until_fence cs))"

text \<open>\<open>re.findall\<close>: the matches from left to right, none overlapping; a position where
  the opening fence has no closing fence after it is passed over.\<close>

function extract_code_blocks :: "string \<Rightarrow> string list" where
  "extract_code_blocks [] = []"
| "extract_code_blocks (c # cs) =
     (if prefix ''```repl\<newline>'' (c # cs) then
        (case until_fence (drop 8 (c # cs)) of
           Some (body, rest) \<Rightarrow> body # extract_code_blocks rest
         | None \<Rightarrow> extract_code_blocks cs)
      else extract_code_blocks cs)"
  by pat_completeness auto
termination
proof (relation "measure length")
  show "wf (measure length)" by simp
next
  fix c :: char and cs :: string
  show "(cs, c # cs) \<in> measure length" by simp
next
  fix c :: char and cs :: string
  show "(cs, c # cs) \<in> measure length" by simp
next
  fix c :: char and cs x2 body rest
  assume h: "until_fence (drop 8 (c # cs)) = Some x2" "(body, rest) = x2"
  have shorter: "until_fence s = Some (b, r) \<Longrightarrow> length r < length s" for s b r
  proof (induction s arbitrary: b)
    case Nil
    then show ?case by simp
  next
    case (Cons a s)
    show ?case
    proof (cases "prefix ''```'' (a # s)")
      case True
      with Cons.prems show ?thesis by auto
    next
      case False
      then have "until_fence (a # s)
          = map_option (\<lambda>(body, rest). (a # body, rest)) (until_fence s)"
        by (simp only: until_fence.simps if_False)
      with Cons.prems obtain b' where "until_fence s = Some (b', r)"
        by (cases "until_fence s") (auto split: prod.splits)
      with Cons.IH have "length r < length s" by blast
      then show ?thesis by simp
    qed
  qed
  from h have "until_fence (drop 8 (c # cs)) = Some (body, rest)" by simp
  from shorter [OF this] have "length rest < length (drop 8 (c # cs))" .
  then show "(rest, c # cs) \<in> measure length" by simp
qed

subsection \<open>Detecting the final answer\<close>

text \<open>The lazy group of \<open>FINAL\((.*?)\)\<close> under \<open>re.DOTALL\<close>: the text up to the first
  closing parenthesis, if there is one.\<close>

fun until_paren :: "string \<Rightarrow> string option" where
  "until_paren [] = None"
| "until_paren (c # cs) =
     (if c = CHR '')'' then Some [] else map_option ((#) c) (until_paren cs))"

text \<open>\<open>re.search\<close> tries the start positions from the left and returns group 1 of the
  first position where the pattern matches.\<close>

fun search_final :: "string \<Rightarrow> string option" where
  "search_final [] = None"
| "search_final (c # cs) =
     (if prefix ''FINAL('' (c # cs) then
        (case until_paren (drop 6 (c # cs)) of
           Some g \<Rightarrow> Some g
         | None \<Rightarrow> search_final cs)
      else search_final cs)"

text \<open>\<open>\w\<close> of a \<open>str\<close> pattern below 256: the underscore and what \<open>str.isalnum\<close> accepts,
  that is the ASCII letters and digits, the ordinal indicators \<open>0xaa\<close> and \<open>0xba\<close>, the
  superscript digits \<open>0xb2\<close>, \<open>0xb3\<close>, \<open>0xb9\<close>, the micro sign \<open>0xb5\<close>, the fractions
  \<open>0xbc\<close> to \<open>0xbe\<close>, and the letters \<open>0xc0\<close> to \<open>0xff\<close> without the two operators
  \<open>0xd7\<close> and \<open>0xf7\<close>.\<close>

definition is_word :: "char \<Rightarrow> bool" where
  "is_word c =
     (c \<in> set (''0123456789'' @ ''ABCDEFGHIJKLMNOPQRSTUVWXYZ'' @ ''_''
                @ ''abcdefghijklmnopqrstuvwxyz''
                @ [CHR 0xAA, CHR 0xB2, CHR 0xB3, CHR 0xB5, CHR 0xB9, CHR 0xBA,
                   CHR 0xBC, CHR 0xBD, CHR 0xBE]
                @ [CHR 0xC0, CHR 0xC1, CHR 0xC2, CHR 0xC3, CHR 0xC4, CHR 0xC5, CHR 0xC6, CHR 0xC7,
                   CHR 0xC8, CHR 0xC9, CHR 0xCA, CHR 0xCB, CHR 0xCC, CHR 0xCD, CHR 0xCE, CHR 0xCF,
                   CHR 0xD0, CHR 0xD1, CHR 0xD2, CHR 0xD3, CHR 0xD4, CHR 0xD5, CHR 0xD6,
                   CHR 0xD8, CHR 0xD9, CHR 0xDA, CHR 0xDB, CHR 0xDC, CHR 0xDD, CHR 0xDE, CHR 0xDF,
                   CHR 0xE0, CHR 0xE1, CHR 0xE2, CHR 0xE3, CHR 0xE4, CHR 0xE5, CHR 0xE6, CHR 0xE7,
                   CHR 0xE8, CHR 0xE9, CHR 0xEA, CHR 0xEB, CHR 0xEC, CHR 0xED, CHR 0xEE, CHR 0xEF,
                   CHR 0xF0, CHR 0xF1, CHR 0xF2, CHR 0xF3, CHR 0xF4, CHR 0xF5, CHR 0xF6,
                   CHR 0xF8, CHR 0xF9, CHR 0xFA, CHR 0xFB, CHR 0xFC, CHR 0xFD, CHR 0xFE, CHR 0xFF]))"

text \<open>\<open>FINAL_VAR\((\w+)\)\<close> at one position: the greedy \<open>\w+\<close> takes the whole run of word
  characters, which must not be empty and must be followed by the closing parenthesis
  (giving characters back cannot help: the next one would be a word character).\<close>

definition match_var_at :: "string \<Rightarrow> string option" where
  "match_var_at s =
     (if prefix ''FINAL_VAR('' s then
        (let name = takeWhile is_word (drop 10 s);
             after = dropWhile is_word (drop 10 s)
         in if name \<noteq> [] \<and> prefix '')'' after then Some name else None)
      else None)"

fun search_var :: "string \<Rightarrow> string option" where
  "search_var [] = None"
| "search_var (c # cs) =
     (case match_var_at (c # cs) of
        Some name \<Rightarrow> Some name
      | None \<Rightarrow> search_var cs)"

text \<open>\<open>check_final_answer\<close>: the literal form first, then the variable form, looked
  up with a placeholder for a missing name and passed through \<open>str\<close>, which is not
  guarded: when it raises, the call is left through that exception.\<close>

definition check_final_answer :: "REPLState \<Rightarrow> string \<Rightarrow> abort + string option" where
  "check_final_answer st response =
     (case search_final response of
        Some g \<Rightarrow> Inr (Some g)
      | None \<Rightarrow>
          (case search_var response of
             Some var_name \<Rightarrow>
               (case py_str (heap st) (dict_get (variables st) var_name
                       (StrV (''[Variable '' @ var_name @ '' not found]''))) of
                  Inl a \<Rightarrow> Inl a
                | Inr text \<Rightarrow> Inr (Some text))
           | None \<Rightarrow> Inr None))"

subsection \<open>The loop of \<open>run\<close>\<close>

text \<open>The first prompt: the length of the context, never the context.\<close>

definition system_prompt :: "string \<Rightarrow> string \<Rightarrow> string" where
  "system_prompt c query =
     ''You have access to a REPL environment with:\<newline>'' @
     ''- `context`: A string variable ('' @ str_int (int (length c)) @
     '' chars) containing documents\<newline>'' @
     ''- `llm_query(prompt)`: Function to query a sub-LLM\<newline>'' @
     ''- `print()`: To output results\<newline>'' @
     ''\<newline>'' @
     ''Write code to explore the context and answer: '' @ query @ ''\<newline>'' @
     ''\<newline>'' @
     ''When ready, use FINAL(answer) or FINAL_VAR(variable_name) to return.''"

text \<open>Every later prompt: the output buffer and the query.\<close>

definition next_prompt :: "string \<Rightarrow> string \<Rightarrow> string" where
  "next_prompt out query =
     ''Previous REPL output:\<newline>'' @ out @ ''\<newline>'' @
     ''\<newline>'' @
     ''Continue exploring to answer: '' @ query @ ''\<newline>'' @
     ''Use FINAL(answer) when ready.''"

text \<open>\<open>if final:\<close> holds for an answer that is present and not the empty string.\<close>

definition truthy :: "string option \<Rightarrow> bool" where
  "truthy final = (case final of None \<Rightarrow> False | Some a \<Rightarrow> a \<noteq> [])"

text \<open>\<open>for code in code_blocks: output = self.execute_repl_code(code)\<close>; a pass that
  does not return ends the loop over the blocks.\<close>

fun run_blocks ::
  "agent \<Rightarrow> interp \<Rightarrow> string list \<Rightarrow> REPLState \<Rightarrow> abort option \<times> REPLState" where
  "run_blocks llm py [] st = (None, st)"
| "run_blocks llm py (code # code_blocks) st =
     (case execute_repl_code llm py st code of
        (Inl a, st') \<Rightarrow> (Some a, st')
      | (Inr output, st') \<Rightarrow> run_blocks llm py code_blocks st')"

text \<open>
  What the loop leaves behind: the session state, the iteration counter, the answer it
  announced when it left through \<open>break\<close>, the prompts it passed to the agent on the
  root path, in order, and what kept it from reaching its end, if anything did.
\<close>

record loop_end =
  end_state :: REPLState
  end_iteration :: int
  final_answer :: "string option"
  root_prompts :: "string list"
  aborted :: "abort option"

text \<open>The \<open>while\<close> loop of \<open>run\<close>, from iteration counter \<open>i\<close>, prompt \<open>p\<close> and state \<open>st\<close>;
  \<open>sent\<close> holds the prompts passed to the agent so far.\<close>

function run_loop ::
  "agent \<Rightarrow> interp \<Rightarrow> int \<Rightarrow> string \<Rightarrow> int \<Rightarrow> string \<Rightarrow> string list \<Rightarrow> REPLState \<Rightarrow> loop_end"
  where
  "run_loop llm py max_iterations query i p sent st =
     (if i < max_iterations then
        (let st1 = st\<lparr>total_tokens_root := total_tokens_root st + (word_count p + 100)\<rparr>;
             response = llm p False
         in case check_final_answer st1 response of
              Inl a \<Rightarrow>
                \<lparr>end_state = st1, end_iteration = i + 1, final_answer = None,
                 root_prompts = sent @ [p], aborted = Some a\<rparr>
            | Inr final \<Rightarrow>
                if truthy final then
                  \<lparr>end_state = st1, end_iteration = i + 1, final_answer = final,
                   root_prompts = sent @ [p], aborted = None\<rparr>
                else
                  (case run_blocks llm py (extract_code_blocks response) st1 of
                     (Some a, st2) \<Rightarrow>
                       \<lparr>end_state = st2, end_iteration = i + 1, final_answer = None,
                        root_prompts = sent @ [p], aborted = Some a\<rparr>
                   | (None, st2) \<Rightarrow>
                       run_loop llm py max_iterations query (i + 1)
                         (next_prompt (output_buffer st2) query) (sent @ [p]) st2))
      else
        \<lparr>end_state = st, end_iteration = i, final_answer = None, root_prompts = sent,
         aborted = None\<rparr>)"
  by pat_completeness auto
termination
  by (relation "measure (\<lambda>(llm, py, max_iterations, query, i, p, sent, st).
         nat (max_iterations - i))") auto

text \<open>The dictionary \<open>run\<close> returns.\<close>

record run_result =
  iterations :: int
  sub_calls :: int
  root_tokens :: int
  sub_tokens :: int
  variable_names :: "string list"

definition summary :: "loop_end \<Rightarrow> run_result" where
  "summary e =
     \<lparr>iterations = end_iteration e,
      sub_calls = sub_call_count (end_state e),
      root_tokens = total_tokens_root (end_state e),
      sub_tokens = total_tokens_sub (end_state e),
      variable_names = dict_keys (variables (end_state e))\<rparr>"

text \<open>\<open>run\<close> up to the end of its loop, and \<open>run\<close> itself, which returns its dictionary
  unless the loop was kept from reaching its end.\<close>

definition run_trace :: "agent \<Rightarrow> interp \<Rightarrow> int \<Rightarrow> string \<Rightarrow> string \<Rightarrow> loop_end" where
  "run_trace llm py max_iterations c query =
     run_loop llm py max_iterations query 0 (system_prompt c query) [] (init_state c)"

definition run :: "agent \<Rightarrow> interp \<Rightarrow> int \<Rightarrow> string \<Rightarrow> string \<Rightarrow> abort + run_result" where
  "run llm py max_iterations c query =
     (case aborted (run_trace llm py max_iterations c query) of
        Some a \<Rightarrow> Inl a
      | None \<Rightarrow> Inr (summary (run_trace llm py max_iterations c query)))"

subsection \<open>What a response contains\<close>

text \<open>
  The three things the loop looks for in a response, said without the search
  functions: a literal marker \<open>FINAL(...)\<close>, a variable marker \<open>FINAL_VAR(name)\<close> with a
  non-empty name of word characters, and a fenced code block.
\<close>

definition has_literal_marker :: "string \<Rightarrow> bool" where
  "has_literal_marker r = (\<exists>pre t post. r = pre @ ''FINAL('' @ t @ '')'' @ post)"

definition has_variable_marker :: "string \<Rightarrow> bool" where
  "has_variable_marker r =
     (\<exists>pre n post. r = pre @ ''FINAL_VAR('' @ n @ '')'' @ post
        \<and> n \<noteq> [] \<and> (\<forall>c\<in>set n. is_word c))"

definition has_code_block :: "string \<Rightarrow> bool" where
  "has_code_block r = (\<exists>pre body post. r = pre @ ''```repl\<newline>'' @ body @ ''```'' @ post)"

subsection \<open>Captured output\<close>


subsection \<open>Code that does not read the data\<close>



subsection \<open>Code that returns\<close>



subsection \<open>Counters\<close>

text \<open>The three counters of one state are at most those of another.\<close>

definition counters_le :: "REPLState \<Rightarrow> REPLState \<Rightarrow> bool" where
  "counters_le s t =
     (sub_call_count s \<le> sub_call_count t
      \<and> total_tokens_root s \<le> total_tokens_root t
      \<and> total_tokens_sub s \<le> total_tokens_sub t)"

subsection \<open>Sample agents and a sample interpreter\<close>

text \<open>
  An agent stub for the examples: one response to the first prompt, another to every
  later prompt, and a fixed text on the sub-call path.
\<close>

definition stub_agent :: "string \<Rightarrow> string \<Rightarrow> agent" where
  "stub_agent first later prompt is_sub_call =
     (if is_sub_call then ''Revenue is $45.2M''
      else if prefix ''You have access'' prompt then first
      else later)"

text \<open>
  What Python does with the code blocks of the examples; any other text is taken for
  a syntax error, which \<open>exec\<close> raises before it runs anything. A new object goes to the
  first address the store does not use.
\<close>

definition sample_python :: interp where
  "sample_python code g objs =
     (if code = ''x = 5\<newline>'' then Store ''x'' (IntV 5) Done
      else if code = ''x = 7\<newline>'' then Store ''x'' (IntV 7) Done
      else if code = ''print(context)\<newline>'' then
        (case dict_get g ''context'' NoneV of
           StrV s \<Rightarrow> Write (s @ ''\<newline>'') Done
         | _ \<Rightarrow> Raise (ExceptionObj (Some ''unsupported'')))
      else if code = ''x = 5\<newline>1/0\<newline>'' then
        Store ''x'' (IntV 5) (Raise (ExceptionObj (Some ''division by zero'')))
      else if code = ''lst = [1]\<newline>'' then
        Mutate (length objs) (Some ''[1]'') (Store ''lst'' (RefV (length objs)) Done)
      else if code = ''lst.append(2)\<newline>1/0\<newline>'' then
        (case dict_get g ''lst'' NoneV of
           RefV a \<Rightarrow>
             (if map_of objs a = Some (Some ''[1]'')
              then Mutate a (Some ''[1, 2]'') (Raise (ExceptionObj (Some ''division by zero'')))
              else Raise (ExceptionObj (Some ''unsupported'')))
         | _ \<Rightarrow> Raise (ExceptionObj (Some ''unsupported'')))
      else if code = ''answer = llm_query(context)\<newline>'' then
        (case dict_get g ''context'' NoneV of
           StrV s \<Rightarrow> Call s (\<lambda>r. Store ''answer'' (StrV r) Done)
         | _ \<Rightarrow> Raise (ExceptionObj (Some ''unsupported'')))
      else if code = ''import sys\<newline>for i in range(3):\<newline>    pass\<newline>'' then
        Store ''sys'' (ObjV ''<module 'sys' (built-in)>'')
          (Store ''i'' (IntV 0) (Store ''i'' (IntV 1) (Store ''i'' (IntV 2) Done)))
      else if code = ''raise SystemExit(3)\<newline>'' then Raise (ExitObj ''SystemExit'')
      else if code = ''while True:\<newline>    pass\<newline>'' then Hang
      else if code = ''class Bad(Exception):\<newline>    __str__ = None\<newline>raise Bad()\<newline>'' then
        Raise (ExceptionObj None)
      else Raise (ExceptionObj (Some ''invalid syntax (<string>, line 1)'')))"

section \<open>Properties\<close>

text \<open>The recursive equations of the three loops are unfolded by hand.\<close>

declare run_loop.simps [simp del] py_split.simps [simp del] str_nat.simps [simp del]

subsection \<open>The two marker patterns\<close>

text \<open>
  The search functions are compared with what the patterns mean: a response \<^emph>\<open>contains a
  literal marker\<close> when it reads \<open>pre @ ''FINAL('' @ t @ '')'' @ post\<close>, and \<^emph>\<open>contains a
  variable marker\<close> when it reads \<open>pre @ ''FINAL_VAR('' @ name @ '')'' @ post\<close> with a
  non-empty \<open>name\<close> of word characters.
\<close>

lemma in_set_drop_tail: "n \<le> length xs \<Longrightarrow> x \<in> set ys \<Longrightarrow> x \<in> set (drop n (xs @ ys))"
  by simp

lemma until_paren_None: "until_paren s = None \<longleftrightarrow> CHR '')'' \<notin> set s"
  by (induction s) auto

lemma until_paren_Some:
  "until_paren s = Some g \<longleftrightarrow> (\<exists>post. s = g @ CHR '')'' # post \<and> CHR '')'' \<notin> set g)"
proof (induction s arbitrary: g)
  case Nil
  then show ?case by simp
next
  case (Cons c s)
  show ?case
  proof (cases "c = CHR '')''")
    case True
    then show ?thesis by (auto simp: Cons_eq_append_conv)
  next
    case False
    then show ?thesis using Cons.IH
      by (auto simp: Cons_eq_append_conv)
  qed
qed

lemma search_final_sound:
  "search_final r = Some g \<Longrightarrow>
     \<exists>pre post. r = pre @ ''FINAL('' @ g @ '')'' @ post \<and> CHR '')'' \<notin> set g
        \<and> (\<forall>i<length pre. \<not> prefix ''FINAL('' (drop i r))"
proof (induction r)
  case Nil
  then show ?case by simp
next
  case (Cons c cs)
  define m :: string where "m = ''FINAL(''"
  have lm: "length m = 6" by (simp add: m_def)
  have step: "search_final (c # cs) =
     (if prefix m (c # cs) then
        (case until_paren (drop 6 (c # cs)) of Some g \<Rightarrow> Some g | None \<Rightarrow> search_final cs)
      else search_final cs)"
    unfolding m_def by (rule search_final.simps)
  show ?case
  proof (cases "prefix m (c # cs)")
    case True
    then obtain rest where rest: "c # cs = m @ rest" by (auto simp: prefix_def)
    then have dr: "drop 6 (c # cs) = rest" using lm by simp
    show ?thesis
    proof (cases "until_paren rest")
      case None
      then have np: "CHR '')'' \<notin> set rest" by (simp add: until_paren_None)
      from None True dr step Cons.prems have "search_final cs = Some g" by simp
      from Cons.IH [OF this] obtain pre post where
        cs: "cs = pre @ ''FINAL('' @ g @ '')'' @ post" by blast
      have "rest = drop 5 cs" using dr by simp
      moreover have "cs = (pre @ ''FINAL('') @ (g @ '')'' @ post)" using cs by simp
      moreover have "CHR '')'' \<in> set (drop 5 ((pre @ ''FINAL('') @ (g @ '')'' @ post)))"
        by (rule in_set_drop_tail) simp_all
      ultimately have "CHR '')'' \<in> set rest" by simp
      with np show ?thesis by simp
    next
      case (Some g')
      with True dr step Cons.prems have "g' = g" by simp
      with Some obtain post where "rest = g @ CHR '')'' # post" "CHR '')'' \<notin> set g"
        by (auto simp: until_paren_Some)
      with rest have "c # cs = [] @ ''FINAL('' @ g @ '')'' @ post"
        by (simp add: m_def)
      with \<open>CHR '')'' \<notin> set g\<close> show ?thesis
        by (metis length_greater_0_conv less_nat_zero_code list.size(3))
    qed
  next
    case False
    with step Cons.prems have "search_final cs = Some g" by simp
    from Cons.IH [OF this] obtain pre post where
      cs: "cs = pre @ ''FINAL('' @ g @ '')'' @ post" and ng: "CHR '')'' \<notin> set g"
      and first: "\<forall>i<length pre. \<not> prefix ''FINAL('' (drop i cs)" by blast
    have "\<forall>i<length (c # pre). \<not> prefix ''FINAL('' (drop i (c # cs))"
    proof (intro allI impI)
      fix i assume "i < length (c # pre)"
      show "\<not> prefix ''FINAL('' (drop i (c # cs))"
      proof (cases i)
        case 0
        then show ?thesis using False by (simp add: m_def)
      next
        case (Suc j)
        then show ?thesis using first \<open>i < length (c # pre)\<close> by simp
      qed
    qed
    moreover have "c # cs = (c # pre) @ ''FINAL('' @ g @ '')'' @ post" using cs by simp
    ultimately show ?thesis using ng by blast
  qed
qed

lemma search_final_complete:
  "r = pre @ ''FINAL('' @ t @ '')'' @ post \<Longrightarrow> search_final r \<noteq> None"
proof (induction pre arbitrary: r)
  case Nil
  then have r: "r = ''FINAL('' @ t @ '')'' @ post" by simp
  have "CHR '')'' \<in> set (drop 6 r)" unfolding r by simp
  then have "until_paren (drop 6 r) \<noteq> None" by (simp add: until_paren_None)
  then show ?case unfolding r by auto
next
  case (Cons a pre)
  then obtain cs where r: "r = a # cs" and cs: "cs = pre @ ''FINAL('' @ t @ '')'' @ post" by simp
  from Cons.IH [OF cs] have ih: "search_final cs \<noteq> None" .
  have "cs = (pre @ ''FINAL('') @ (t @ '')'' @ post)" using cs by simp
  moreover have "CHR '')'' \<in> set (drop 5 ((pre @ ''FINAL('') @ (t @ '')'' @ post)))"
    by (rule in_set_drop_tail) simp_all
  ultimately have "CHR '')'' \<in> set (drop 5 cs)" by simp
  then have "until_paren (drop 6 r) \<noteq> None" unfolding r by (simp add: until_paren_None)
  then show ?case using ih unfolding r by (auto split: option.splits)
qed


lemma not_word_paren: "\<not> is_word CHR '')''"
  by (simp add: is_word_def)

lemma match_var_at_sound:
  assumes "match_var_at s = Some n"
  shows "\<exists>post. s = ''FINAL_VAR('' @ n @ '')'' @ post \<and> n \<noteq> [] \<and> (\<forall>c\<in>set n. is_word c)"
proof -
  define m :: string where "m = ''FINAL_VAR(''"
  have lm: "length m = 10" by (simp add: m_def)
  have unf: "match_var_at s =
     (if prefix m s then
        (let name = takeWhile is_word (drop 10 s); after = dropWhile is_word (drop 10 s)
         in if name \<noteq> [] \<and> prefix '')'' after then Some name else None)
      else None)"
    unfolding m_def by (rule match_var_at_def)
  from assms unf have pm: "prefix m s" by (auto split: if_splits)
  then obtain rest where s: "s = m @ rest" by (auto simp: prefix_def)
  then have dr: "drop 10 s = rest" using lm by simp
  from assms unf pm dr have n: "n = takeWhile is_word rest" "n \<noteq> []"
    and pa: "prefix '')'' (dropWhile is_word rest)"
    by (auto simp: Let_def split: if_splits)
  from pa obtain post where "dropWhile is_word rest = '')'' @ post"
    by (auto simp: prefix_def)
  then have "rest = n @ '')'' @ post"
    using n(1) by (metis takeWhile_dropWhile_id)
  moreover have "\<forall>c\<in>set n. is_word c" using n(1) by (auto dest: set_takeWhileD)
  ultimately show ?thesis using s n(2) by (simp add: m_def)
qed

lemma match_var_at_complete:
  assumes "n \<noteq> []" "\<forall>c\<in>set n. is_word c"
  shows "match_var_at (''FINAL_VAR('' @ n @ '')'' @ post) = Some n"
proof -
  have tw: "takeWhile is_word (n @ '')'' @ post) = n"
    using assms(2) not_word_paren by (simp add: takeWhile_append2)
  have dw: "dropWhile is_word (n @ '')'' @ post) = '')'' @ post"
    using assms(2) not_word_paren by (simp add: dropWhile_append2)
  have dr: "drop 10 (''FINAL_VAR('' @ n @ '')'' @ post) = n @ '')'' @ post" by simp
  have pm: "prefix ''FINAL_VAR('' (''FINAL_VAR('' @ n @ '')'' @ post)" by simp
  show ?thesis
    unfolding match_var_at_def dr tw dw Let_def using pm assms(1) by simp
qed

lemma search_var_sound:
  "search_var r = Some n \<Longrightarrow>
     \<exists>pre post. r = pre @ ''FINAL_VAR('' @ n @ '')'' @ post \<and> n \<noteq> [] \<and> (\<forall>c\<in>set n. is_word c)
        \<and> (\<forall>i<length pre. match_var_at (drop i r) = None)"
proof (induction r)
  case Nil
  then show ?case by simp
next
  case (Cons c cs)
  show ?case
  proof (cases "match_var_at (c # cs)")
    case None
    with Cons.prems have "search_var cs = Some n" by simp
    from Cons.IH [OF this] obtain pre post where
      cs: "cs = pre @ ''FINAL_VAR('' @ n @ '')'' @ post" and n: "n \<noteq> []" "\<forall>c\<in>set n. is_word c"
      and first: "\<forall>i<length pre. match_var_at (drop i cs) = None" by blast
    have "\<forall>i<length (c # pre). match_var_at (drop i (c # cs)) = None"
    proof (intro allI impI)
      fix i assume "i < length (c # pre)"
      then show "match_var_at (drop i (c # cs)) = None"
        using None first by (cases i) simp_all
    qed
    moreover have "c # cs = (c # pre) @ ''FINAL_VAR('' @ n @ '')'' @ post" using cs by simp
    ultimately show ?thesis using n by blast
  next
    case (Some n')
    with Cons.prems have "n' = n" by simp
    with Some match_var_at_sound obtain post where
      "c # cs = [] @ ''FINAL_VAR('' @ n @ '')'' @ post" "n \<noteq> []" "\<forall>c\<in>set n. is_word c"
      by fastforce
    then show ?thesis by (metis less_nat_zero_code list.size(3))
  qed
qed

lemma search_var_complete:
  "r = pre @ ''FINAL_VAR('' @ n @ '')'' @ post \<Longrightarrow> n \<noteq> [] \<Longrightarrow> \<forall>c\<in>set n. is_word c
     \<Longrightarrow> search_var r \<noteq> None"
proof (induction pre arbitrary: r)
  case Nil
  then show ?case
    using match_var_at_complete [of n post]
    by (cases r) (auto simp del: match_var_at_def)
next
  case (Cons a pre)
  then show ?case by (auto split: option.splits)
qed


lemma until_paren_takeWhile:
  "until_paren s = (if CHR '')'' \<in> set s then Some (takeWhile (\<lambda>c. c \<noteq> CHR '')'') s) else None)"
  by (induction s) auto

lemma takeWhile_payload:
  "takeWhile (\<lambda>c. c \<noteq> CHR '')'') (t @ CHR '')'' # post) = takeWhile (\<lambda>c. c \<noteq> CHR '')'') t"
  by (induction t) auto

lemma search_final_leftmost:
  assumes "\<forall>i<length pre. \<not> prefix ''FINAL('' (drop i (pre @ ''FINAL('' @ t @ '')'' @ post))"
  shows "search_final (pre @ ''FINAL('' @ t @ '')'' @ post)
           = Some (takeWhile (\<lambda>c. c \<noteq> CHR '')'') t)"
  using assms
proof (induction pre)
  case Nil
  have "until_paren (t @ '')'' @ post) = Some (takeWhile (\<lambda>c. c \<noteq> CHR '')'') t)"
    by (simp add: until_paren_takeWhile takeWhile_payload del: until_paren.simps)
  then show ?case by simp
next
  case (Cons a pre)
  let ?r = "pre @ ''FINAL('' @ t @ '')'' @ post"
  from Cons.prems have "\<not> prefix ''FINAL('' (drop 0 (a # ?r))"
    by (metis append_Cons length_greater_0_conv list.distinct(1))
  then have np: "\<not> prefix ''FINAL('' (a # ?r)" by simp
  have "\<forall>i<length pre. \<not> prefix ''FINAL('' (drop i ?r)"
  proof (intro allI impI)
    fix i assume "i < length pre"
    then have "Suc i < length (a # pre)" by simp
    with Cons.prems have "\<not> prefix ''FINAL('' (drop (Suc i) ((a # pre) @ ''FINAL('' @ t @ '')'' @ post))"
      by blast
    then show "\<not> prefix ''FINAL('' (drop i ?r)" by simp
  qed
  from Cons.IH [OF this] have ih: "search_final ?r = Some (takeWhile (\<lambda>c. c \<noteq> CHR '')'') t)" .
  have "search_final (a # ?r) = search_final ?r"
    using np by (simp only: search_final.simps if_False)
  with ih show ?case by simp
qed

text \<open>
  \<^bold>\<open>C4.\<close> When a response contains both a literal marker and a variable marker, the
  detector answers with the text a literal marker wraps, whatever the state holds and
  wherever the variable marker stands: the text \<open>g\<close> between the leftmost \<open>FINAL(\<close> and
  the first closing parenthesis after it.
\<close>

theorem literal_marker_takes_priority:
  assumes "response = pre @ ''FINAL('' @ t @ '')'' @ post"
    and "response = pre' @ ''FINAL_VAR('' @ name @ '')'' @ post'"
    and "name \<noteq> []" and "\<forall>c\<in>set name. is_word c"
  shows "\<exists>a g b. check_final_answer st response = Inr (Some g)
           \<and> response = a @ ''FINAL('' @ g @ '')'' @ b \<and> CHR '')'' \<notin> set g
           \<and> (\<forall>i<length a. \<not> prefix ''FINAL('' (drop i response))"
proof -
  from assms(1) have "search_final response \<noteq> None" by (rule search_final_complete)
  then obtain g where g: "search_final response = Some g" by blast
  from search_final_sound [OF g] obtain a b where
    "response = a @ ''FINAL('' @ g @ '')'' @ b" "CHR '')'' \<notin> set g"
    "\<forall>i<length a. \<not> prefix ''FINAL('' (drop i response)" by blast
  moreover have "check_final_answer st response = Inr (Some g)"
    using g by (simp add: check_final_answer_def)
  ultimately show ?thesis by blast
qed

theorem literal_marker_takes_priority_witness:
  "check_final_answer (init_state ''data''\<lparr>variables := [(''x'', IntV 7)]\<rparr>)
       ''FINAL_VAR(x) FINAL(42)'' = Inr (Some ''42'')
   \<and> (\<exists>a g b. check_final_answer (init_state ''data''\<lparr>variables := [(''x'', IntV 7)]\<rparr>)
                 ''FINAL_VAR(x) FINAL(42)'' = Inr (Some g)
           \<and> ''FINAL_VAR(x) FINAL(42)'' = a @ ''FINAL('' @ g @ '')'' @ b \<and> CHR '')'' \<notin> set g
           \<and> (\<forall>i<length a. \<not> prefix ''FINAL('' (drop i ''FINAL_VAR(x) FINAL(42)'')))"
proof
  show "check_final_answer (init_state ''data''\<lparr>variables := [(''x'', IntV 7)]\<rparr>)
       ''FINAL_VAR(x) FINAL(42)'' = Inr (Some ''42'')"
    by code_simp
next
  have lit: "''FINAL_VAR(x) FINAL(42)'' = ''FINAL_VAR(x) '' @ ''FINAL('' @ ''42'' @ '')'' @ []"
    by simp
  have var: "''FINAL_VAR(x) FINAL(42)'' = [] @ ''FINAL_VAR('' @ ''x'' @ '')'' @ '' FINAL(42)''"
    by simp
  have ne: "''x'' \<noteq> []" by simp
  have w: "\<forall>c\<in>set ''x''. is_word c" by (simp add: is_word_def)
  show "\<exists>a g b. check_final_answer (init_state ''data''\<lparr>variables := [(''x'', IntV 7)]\<rparr>)
                 ''FINAL_VAR(x) FINAL(42)'' = Inr (Some g)
           \<and> ''FINAL_VAR(x) FINAL(42)'' = a @ ''FINAL('' @ g @ '')'' @ b \<and> CHR '')'' \<notin> set g
           \<and> (\<forall>i<length a. \<not> prefix ''FINAL('' (drop i ''FINAL_VAR(x) FINAL(42)''))"
    by (rule literal_marker_takes_priority [OF lit var ne w])
qed

lemma length_str_nat_power: "length (str_nat (10 ^ k)) = Suc k"
proof (induction k)
  case 0
  show ?case by (simp add: str_nat.simps)
next
  case (Suc k)
  have "\<not> (10::nat) ^ Suc k < 10" by simp
  then have "str_nat (10 ^ Suc k)
      = str_nat (10 ^ Suc k div 10) @ [char_of (48 + (10::nat) ^ Suc k mod 10)]"
    by (subst str_nat.simps) (simp only: if_False)
  moreover have "(10::nat) ^ Suc k div 10 = 10 ^ k" by simp
  ultimately show ?case using Suc.IH by simp
qed

lemma py_str_big_int:
  assumes "4300 \<le> k"
  shows "py_str h (IntV (10 ^ k)) = Inl (Uncaught ''ValueError'')"
proof -
  have "nat (abs ((10::int) ^ k)) = 10 ^ k" by (simp add: nat_power_eq)
  then have "length (str_nat (nat (abs ((10::int) ^ k)))) = Suc k"
    by (simp only: length_str_nat_power)
  with assms show ?thesis by (simp only: py_str.simps) simp
qed

text \<open>
  \<^bold>\<open>C5.\<close> When a response contains a variable marker and no literal marker, the
  detector takes the name \<open>n\<close> of the leftmost variable marker. If \<open>n\<close> is not a key of
  \<open>variables\<close>, the answer is the placeholder \<open>[Variable n not found]\<close>. If it is a key,
  the detector calls \<open>str\<close> on its value: the answer is the text \<open>str\<close> gives, and when
  \<open>str\<close> raises, the detector is left through that exception and returns nothing.
\<close>

theorem variable_marker_resolution:
  assumes "\<not> (\<exists>pre t post. response = pre @ ''FINAL('' @ t @ '')'' @ post)"
    and "response = pre @ ''FINAL_VAR('' @ name @ '')'' @ post"
    and "name \<noteq> []" and "\<forall>c\<in>set name. is_word c"
  shows "\<exists>a n b. response = a @ ''FINAL_VAR('' @ n @ '')'' @ b
           \<and> n \<noteq> [] \<and> (\<forall>c\<in>set n. is_word c)
           \<and> (\<forall>i<length a. match_var_at (drop i response) = None)
           \<and> check_final_answer st response =
               (case map_of (variables st) n of
                  Some v \<Rightarrow>
                    (case py_str (heap st) v of
                       Inl e \<Rightarrow> Inl e
                     | Inr text \<Rightarrow> Inr (Some text))
                | None \<Rightarrow> Inr (Some (''[Variable '' @ n @ '' not found]'')))"
proof -
  have nolit: "search_final response = None"
  proof (cases "search_final response")
    case None
    then show ?thesis .
  next
    case (Some g)
    from search_final_sound [OF this] assms(1) show ?thesis by blast
  qed
  from assms(2-4) have "search_var response \<noteq> None" by (rule search_var_complete)
  then obtain n where n: "search_var response = Some n" by blast
  from search_var_sound [OF n] obtain a b where
    "response = a @ ''FINAL_VAR('' @ n @ '')'' @ b" "n \<noteq> []" "\<forall>c\<in>set n. is_word c"
    "\<forall>i<length a. match_var_at (drop i response) = None" by blast
  moreover have "check_final_answer st response =
               (case map_of (variables st) n of
                  Some v \<Rightarrow>
                    (case py_str (heap st) v of
                       Inl e \<Rightarrow> Inl e
                     | Inr text \<Rightarrow> Inr (Some text))
                | None \<Rightarrow> Inr (Some (''[Variable '' @ n @ '' not found]'')))"
    using nolit n by (simp add: check_final_answer_def dict_get_def split: option.splits)
  ultimately show ?thesis by blast
qed

theorem variable_marker_resolution_witness:
  "(\<exists>a n b. ''Done. FINAL_VAR(answer)'' = a @ ''FINAL_VAR('' @ n @ '')'' @ b
       \<and> n \<noteq> [] \<and> (\<forall>c\<in>set n. is_word c)
       \<and> (\<forall>i<length a. match_var_at (drop i ''Done. FINAL_VAR(answer)'') = None)
       \<and> check_final_answer
             (init_state ''data''\<lparr>variables := [(''answer'', StrV ''Revenue is $45.2M'')]\<rparr>)
             ''Done. FINAL_VAR(answer)'' =
           (case map_of (variables
                   (init_state ''data''\<lparr>variables := [(''answer'', StrV ''Revenue is $45.2M'')]\<rparr>)) n of
              Some v \<Rightarrow>
                (case py_str (heap
                   (init_state ''data''\<lparr>variables := [(''answer'', StrV ''Revenue is $45.2M'')]\<rparr>)) v of
                   Inl e \<Rightarrow> Inl e
                 | Inr text \<Rightarrow> Inr (Some text))
            | None \<Rightarrow> Inr (Some (''[Variable '' @ n @ '' not found]''))))
   \<and> check_final_answer
         (init_state ''data''\<lparr>variables := [(''answer'', StrV ''Revenue is $45.2M'')]\<rparr>)
         ''Done. FINAL_VAR(answer)'' = Inr (Some ''Revenue is $45.2M'')
   \<and> check_final_answer (init_state ''data'') ''Done. FINAL_VAR(answer)''
       = Inr (Some ''[Variable answer not found]'')
   \<and> check_final_answer (init_state ''data''\<lparr>variables := [(''n'', IntV (- 12))]\<rparr>)
         ''FINAL_VAR(n)'' = Inr (Some ''-12'')
   \<and> check_final_answer
         (init_state ''data''\<lparr>variables := [(''lst'', RefV 0)], heap := [(0, Some ''[1, 2]'')]\<rparr>)
         ''FINAL_VAR(lst)'' = Inr (Some ''[1, 2]'')"
proof (intro conjI)
  have "search_final ''Done. FINAL_VAR(answer)'' = None" by simp
  then have nolit: "\<not> (\<exists>pre t post.
      ''Done. FINAL_VAR(answer)'' = pre @ ''FINAL('' @ t @ '')'' @ post)"
    using search_final_complete by blast
  have var: "''Done. FINAL_VAR(answer)'' = ''Done. '' @ ''FINAL_VAR('' @ ''answer'' @ '')'' @ []"
    by simp
  have ne: "''answer'' \<noteq> []" by simp
  have w: "\<forall>c\<in>set ''answer''. is_word c" by (simp add: is_word_def)
  show "\<exists>a n b. ''Done. FINAL_VAR(answer)'' = a @ ''FINAL_VAR('' @ n @ '')'' @ b
       \<and> n \<noteq> [] \<and> (\<forall>c\<in>set n. is_word c)
       \<and> (\<forall>i<length a. match_var_at (drop i ''Done. FINAL_VAR(answer)'') = None)
       \<and> check_final_answer
             (init_state ''data''\<lparr>variables := [(''answer'', StrV ''Revenue is $45.2M'')]\<rparr>)
             ''Done. FINAL_VAR(answer)'' =
           (case map_of (variables
                   (init_state ''data''\<lparr>variables := [(''answer'', StrV ''Revenue is $45.2M'')]\<rparr>)) n of
              Some v \<Rightarrow>
                (case py_str (heap
                   (init_state ''data''\<lparr>variables := [(''answer'', StrV ''Revenue is $45.2M'')]\<rparr>)) v of
                   Inl e \<Rightarrow> Inl e
                 | Inr text \<Rightarrow> Inr (Some text))
            | None \<Rightarrow> Inr (Some (''[Variable '' @ n @ '' not found]'')))"
    by (rule variable_marker_resolution [OF nolit var ne w])
qed code_simp+

text \<open>
  A name that is a key does not always come back as text: \<open>str\<close> raises for the
  integer \<open>10 ** 4300\<close>, which has 4301 digits, and for an object whose \<open>__str__\<close>
  raises, and then the detector raises too.
\<close>

theorem variable_marker_str_raises_counterexample:
  "map_of (variables (init_state ''data''\<lparr>variables := [(''x'', IntV (10 ^ 4300))]\<rparr>)) ''x''
     = Some (IntV (10 ^ 4300))
   \<and> check_final_answer (init_state ''data''\<lparr>variables := [(''x'', IntV (10 ^ 4300))]\<rparr>)
       ''FINAL_VAR(x)'' = Inl (Uncaught ''ValueError'')
   \<and> check_final_answer
       (init_state ''data''\<lparr>variables := [(''x'', RefV 0)], heap := [(0, None)]\<rparr>)
       ''FINAL_VAR(x)'' = Inl (Uncaught ''raised by __str__'')"
proof (intro conjI)
  have "map_of (variables (st\<lparr>variables := [(''x'', v)]\<rparr>)) ''x'' = Some v"
    for st :: REPLState and v
    by simp
  then show "map_of (variables (init_state ''data''\<lparr>variables := [(''x'', IntV (10 ^ 4300))]\<rparr>)) ''x''
     = Some (IntV (10 ^ 4300))" .
next
  have f: "search_final ''FINAL_VAR(x)'' = None" by simp
  have v: "search_var ''FINAL_VAR(x)'' = Some ''x''" by code_simp
  have k: "(4300::nat) \<le> 4300" by simp
  have "check_final_answer (st\<lparr>variables := [(''x'', IntV (10 ^ n))]\<rparr>) ''FINAL_VAR(x)''
      = Inl (Uncaught ''ValueError'')" if "4300 \<le> n" for st :: REPLState and n :: nat
    unfolding check_final_answer_def f v using py_str_big_int [OF that]
    by (simp add: dict_get_def)
  from this [OF k]
  show "check_final_answer (init_state ''data''\<lparr>variables := [(''x'', IntV (10 ^ 4300))]\<rparr>)
       ''FINAL_VAR(x)'' = Inl (Uncaught ''ValueError'')" .
next
  show "check_final_answer
       (init_state ''data''\<lparr>variables := [(''x'', RefV 0)], heap := [(0, None)]\<rparr>)
       ''FINAL_VAR(x)'' = Inl (Uncaught ''raised by __str__'')"
    by code_simp
qed

text \<open>
  \<^bold>\<open>C9.\<close> An answer the detector returns for a response that contains a literal marker
  has no closing parenthesis in it; for the leftmost marker the answer is the payload
  \<open>t\<close> cut at its first closing parenthesis, so a payload with parentheses of its own
  comes back truncated.
\<close>

theorem literal_answer_stops_at_first_paren:
  assumes "response = pre @ ''FINAL('' @ t @ '')'' @ post"
  shows "(check_final_answer st response = Inr (Some g) \<longrightarrow> CHR '')'' \<notin> set g)
       \<and> ((\<forall>i<length pre. \<not> prefix ''FINAL('' (drop i response)) \<longrightarrow>
            check_final_answer st response = Inr (Some (takeWhile (\<lambda>c. c \<noteq> CHR '')'') t)))"
proof (intro conjI impI)
  assume a: "check_final_answer st response = Inr (Some g)"
  from assms have "search_final response \<noteq> None" by (rule search_final_complete)
  then obtain g' where g': "search_final response = Some g'" by blast
  then have "check_final_answer st response = Inr (Some g')" by (simp add: check_final_answer_def)
  with a have "g' = g" by simp
  with search_final_sound [OF g'] show "CHR '')'' \<notin> set g" by blast
next
  assume "\<forall>i<length pre. \<not> prefix ''FINAL('' (drop i response)"
  then have "search_final response = Some (takeWhile (\<lambda>c. c \<noteq> CHR '')'') t)"
    unfolding assms by (rule search_final_leftmost)
  then show "check_final_answer st response = Inr (Some (takeWhile (\<lambda>c. c \<noteq> CHR '')'') t))"
    by (simp add: check_final_answer_def)
qed

theorem literal_answer_stops_at_first_paren_witness:
  "check_final_answer (init_state ''data'') ''FINAL(f(x) + 1)'' = Inr (Some ''f(x'')
   \<and> CHR '')'' \<notin> set ''f(x''
   \<and> takeWhile (\<lambda>c. c \<noteq> CHR '')'') ''f(x) + 1'' = ''f(x''"
proof -
  have r: "''FINAL(f(x) + 1)'' = [] @ ''FINAL('' @ ''f(x) + 1'' @ '')'' @ []" by simp
  have first: "\<forall>i<length ([] :: string). \<not> prefix ''FINAL('' (drop i ''FINAL(f(x) + 1)'')"
    by simp
  have tw: "takeWhile (\<lambda>c. c \<noteq> CHR '')'') ''f(x) + 1'' = ''f(x''" by simp
  from literal_answer_stops_at_first_paren [OF r, of "init_state ''data''" "''f(x''"] first
  have ans: "check_final_answer (init_state ''data'') ''FINAL(f(x) + 1)''
      = Inr (Some (takeWhile (\<lambda>c. c \<noteq> CHR '')'') ''f(x) + 1''))"
    and np: "check_final_answer (init_state ''data'') ''FINAL(f(x) + 1)'' = Inr (Some ''f(x'')
      \<longrightarrow> CHR '')'' \<notin> set ''f(x''"
    by blast+
  from ans tw have "check_final_answer (init_state ''data'') ''FINAL(f(x) + 1)'' = Inr (Some ''f(x'')"
    by simp
  with np tw show ?thesis by blast
qed
subsection \<open>The execution pass\<close>

lemma word_count_nonneg: "0 \<le> word_count p"
  by (simp add: word_count_def)

lemma llm_query_fields:
  "variables (snd (llm_query llm st p)) = variables st"
  "context_str (snd (llm_query llm st p)) = context_str st"
  "output_buffer (snd (llm_query llm st p)) = output_buffer st"
  "total_tokens_root (snd (llm_query llm st p)) = total_tokens_root st"
  "sub_call_count (snd (llm_query llm st p)) = sub_call_count st + 1"
  "total_tokens_sub (snd (llm_query llm st p)) = total_tokens_sub st + (word_count p + 50)"
  "heap (snd (llm_query llm st p)) = heap st"
  "fst (llm_query llm st p) = llm p True"
  by (simp_all add: llm_query_def Let_def)

lemma llm_query_counters: "counters_le st (snd (llm_query llm st p))"
  using word_count_nonneg [of p] by (simp add: counters_le_def llm_query_fields)

lemma counters_le_refl: "counters_le s s"
  by (simp add: counters_le_def)

lemma counters_le_trans: "counters_le s t \<Longrightarrow> counters_le t u \<Longrightarrow> counters_le s u"
  by (auto simp: counters_le_def)

lemma exec_script_frame:
  "exec_script llm s g out st = (f, g', out', st') \<Longrightarrow>
     variables st' = variables st \<and> context_str st' = context_str st
     \<and> output_buffer st' = output_buffer st \<and> counters_le st st'"
proof (induction s arbitrary: g out st)
  case (Call p k)
  obtain r st1 where q: "llm_query llm st p = (r, st1)" by (cases "llm_query llm st p")
  with Call.prems have "exec_script llm (k r) g out st1 = (f, g', out', st')" by simp
  from Call.IH [OF _ this] have
    "variables st' = variables st1 \<and> context_str st' = context_str st1
     \<and> output_buffer st' = output_buffer st1 \<and> counters_le st1 st'"
    by blast
  moreover have "st1 = snd (llm_query llm st p)" using q by simp
  ultimately show ?case
    using llm_query_counters [of st llm p] counters_le_trans
    by (auto simp: llm_query_fields)
next
  case (Mutate a t k)
  from Mutate.prems
  have "exec_script llm k g out (st\<lparr>heap := AList.update a t (heap st)\<rparr>) = (f, g', out', st')"
    by simp
  from Mutate.IH [OF this] show ?case by (simp add: counters_le_def)
qed (auto simp: counters_le_refl)

lemma exec_script_distinct:
  "exec_script llm s g out st = (f, g', out', st') \<Longrightarrow> distinct (map fst g)
     \<Longrightarrow> distinct (map fst g')"
proof (induction s arbitrary: g out st)
  case (Call p k)
  obtain r st1 where q: "llm_query llm st p = (r, st1)" by (cases "llm_query llm st p")
  with Call.prems have "exec_script llm (k r) g out st1 = (f, g', out', st')" by simp
  from Call.IH [OF _ this Call.prems(2)] show ?case by blast
qed (auto simp: distinct_update distinct_delete)

lemma exec_script_captured:
  "exec_script llm s g out st = (f, g', out', st') \<Longrightarrow> prefix out out'"
proof (induction s arbitrary: g out st)
  case (Call p k)
  obtain r st1 where q: "llm_query llm st p = (r, st1)" by (cases "llm_query llm st p")
  with Call.prems have "exec_script llm (k r) g out st1 = (f, g', out', st')" by simp
  from Call.IH [OF _ this] show ?case by blast
next
  case (Write s k)
  then have "prefix (out @ s) out'" by simp
  then show ?case by (rule append_prefixD)
qed auto


lemma distinct_dict_update:
  "distinct (map fst d) \<Longrightarrow> distinct (map fst (dict_update d other))"
  unfolding dict_update_def
  by (induction other arbitrary: d) (auto simp: distinct_update)

lemma distinct_build_globals: "distinct (map fst (build_globals st))"
  unfolding build_globals_def by (rule distinct_dict_update) simp

lemma py_exec_frame:
  assumes "py_exec llm py code g st = (f, g', out', st')"
  shows "variables st' = variables st" "context_str st' = context_str st"
    "output_buffer st' = output_buffer st" "counters_le st st'"
  using exec_script_frame assms unfolding py_exec_def Let_def by blast+

lemma py_exec_distinct:
  assumes "py_exec llm py code g st = (f, g', out', st')" "distinct (map fst g)"
  shows "distinct (map fst g')"
proof -
  let ?g0 = "if ''__builtins__'' \<in> set (dict_keys g) then g
             else AList.update ''__builtins__'' (ObjV ''<module 'builtins' (built-in)>'') g"
  have "distinct (map fst ?g0)" using assms(2) by (simp add: distinct_update)
  moreover have "exec_script llm (py code ?g0 (heap st)) ?g0 [] st = (f, g', out', st')"
    using assms(1) by (simp add: py_exec_def Let_def)
  ultimately show ?thesis using exec_script_distinct by blast
qed


lemma map_of_save_variables:
  "distinct (map fst g) \<Longrightarrow>
   map_of (save_variables g vars) k =
     (if k \<in> set reserved_names then map_of vars k
      else case map_of g k of Some v \<Rightarrow> Some v | None \<Rightarrow> map_of vars k)"
  unfolding save_variables_def
proof (induction g arbitrary: vars)
  case Nil
  then show ?case by simp
next
  case (Cons a g)
  obtain k0 v0 where a: "a = (k0, v0)" by (cases a)
  from Cons.prems a have d: "distinct (map fst g)" and nk: "map_of g k0 = None"
    by (auto simp: map_of_eq_None_iff)
  show ?case
    using Cons.IH [OF d] nk a
    by (auto simp: update_conv' split: option.splits)
qed

lemma keys_save_variables:
  "set (dict_keys vars) \<subseteq> set (dict_keys (save_variables g vars))"
  unfolding save_variables_def dict_keys_def
proof (induction g arbitrary: vars)
  case Nil
  then show ?case by simp
next
  case (Cons a g)
  obtain k0 v0 where a: "a = (k0, v0)" by (cases a)
  let ?f = "\<lambda>(k, v) acc. if k \<in> set reserved_names then acc else AList.update k v acc"
  have "set (map fst vars) \<subseteq> set (map fst (AList.update k0 v0 vars))"
    using dom_update [of k0 v0 vars] by auto
  then have "set (map fst vars) \<subseteq> set (map fst (?f a vars))"
    using a by simp
  also have "\<dots> \<subseteq> set (map fst (fold ?f g (?f a vars)))"
    by (rule Cons.IH)
  finally show ?case by simp
qed

lemma distinct_save_variables:
  "distinct (dict_keys vars) \<Longrightarrow> distinct (dict_keys (save_variables g vars))"
  unfolding save_variables_def dict_keys_def
  by (induction g arbitrary: vars) (auto simp: distinct_update)

lemma execute_repl_code_success:
  assumes "py_exec llm py code (build_globals st) st = (Completed, g', captured, st1)"
  shows "execute_repl_code llm py st code =
           (Inr captured, st1\<lparr>variables := save_variables g' (variables st),
                              output_buffer := captured\<rparr>)"
  using assms py_exec_frame(1) [OF assms]
  by (simp add: execute_repl_code_def Let_def)

lemma execute_repl_code_fault:
  assumes "py_exec llm py code (build_globals st) st
             = (Raised (ExceptionObj (Some e)), g', captured, st1)"
  shows "execute_repl_code llm py st code =
           (Inr (captured @ ''Error: '' @ e), st1\<lparr>output_buffer := captured @ ''Error: '' @ e\<rparr>)"
  using assms by (simp add: execute_repl_code_def Let_def)

lemma execute_repl_code_abort:
  assumes "py_exec llm py code (build_globals st) st = (f, g', captured, st1)"
    and "f \<noteq> Completed" and "\<forall>e. f \<noteq> Raised (ExceptionObj (Some e))"
  shows "execute_repl_code llm py st code =
           (Inl (case f of Raised (ExitObj name) \<Rightarrow> Uncaught name
                   | Hung \<Rightarrow> NoReturn
                   | _ \<Rightarrow> Uncaught ''raised by str(e)''), st1)"
  using assms
  by (simp add: execute_repl_code_def split: ending.splits pyexc.splits option.splits)

lemma execute_repl_code_cases:
  obtains (success) g' captured st1 where
      "py_exec llm py code (build_globals st) st = (Completed, g', captured, st1)"
    | (fault) e g' captured st1 where
      "py_exec llm py code (build_globals st) st
         = (Raised (ExceptionObj (Some e)), g', captured, st1)"
    | (abort) a f g' captured st1 where
      "py_exec llm py code (build_globals st) st = (f, g', captured, st1)"
      "execute_repl_code llm py st code = (Inl a, st1)"
proof -
  obtain f g' captured st1 where
    pe: "py_exec llm py code (build_globals st) st = (f, g', captured, st1)"
    by (metis prod_cases4)
  show ?thesis
  proof (cases "f = Completed \<or> (\<exists>e. f = Raised (ExceptionObj (Some e)))")
    case True
    then show ?thesis using pe success fault by blast
  next
    case False
    then have "f \<noteq> Completed" "\<forall>e. f \<noteq> Raised (ExceptionObj (Some e))" by blast+
    from execute_repl_code_abort [OF pe this] show ?thesis using pe abort by blast
  qed
qed


lemma execute_repl_code_frame:
  "context_str (snd (execute_repl_code llm py st code)) = context_str st"
  "counters_le st (snd (execute_repl_code llm py st code))"
  "set (dict_keys (variables st)) \<subseteq> set (dict_keys (variables (snd (execute_repl_code llm py st code))))"
  "distinct (dict_keys (variables st)) \<Longrightarrow>
     distinct (dict_keys (variables (snd (execute_repl_code llm py st code))))"
proof -
  show "context_str (snd (execute_repl_code llm py st code)) = context_str st"
  proof (cases rule: execute_repl_code_cases [of llm py code st])
    case (success g' captured st1)
    then show ?thesis using py_exec_frame(2) [OF success]
      by (simp add: execute_repl_code_success)
  next
    case (fault e g' captured st1)
    then show ?thesis using py_exec_frame(2) [OF fault]
      by (simp add: execute_repl_code_fault)
  next
    case (abort a f g' captured st1)
    then show ?thesis using py_exec_frame(2) [OF abort(1)] by simp
  qed
  show "counters_le st (snd (execute_repl_code llm py st code))"
  proof (cases rule: execute_repl_code_cases [of llm py code st])
    case (success g' captured st1)
    then show ?thesis using py_exec_frame(4) [OF success]
      by (simp add: execute_repl_code_success counters_le_def)
  next
    case (fault e g' captured st1)
    then show ?thesis using py_exec_frame(4) [OF fault]
      by (simp add: execute_repl_code_fault counters_le_def)
  next
    case (abort a f g' captured st1)
    then show ?thesis using py_exec_frame(4) [OF abort(1)] by simp
  qed
  show "set (dict_keys (variables st))
      \<subseteq> set (dict_keys (variables (snd (execute_repl_code llm py st code))))"
  proof (cases rule: execute_repl_code_cases [of llm py code st])
    case (success g' captured st1)
    then show ?thesis using keys_save_variables [of "variables st" g']
      by (simp add: execute_repl_code_success)
  next
    case (fault e g' captured st1)
    then show ?thesis using py_exec_frame(1) [OF fault]
      by (simp add: execute_repl_code_fault)
  next
    case (abort a f g' captured st1)
    then show ?thesis using py_exec_frame(1) [OF abort(1)] by simp
  qed
  show "distinct (dict_keys (variables (snd (execute_repl_code llm py st code))))"
    if "distinct (dict_keys (variables st))"
  proof (cases rule: execute_repl_code_cases [of llm py code st])
    case (success g' captured st1)
    then show ?thesis using distinct_save_variables [OF that, of g']
      by (simp add: execute_repl_code_success)
  next
    case (fault e g' captured st1)
    then show ?thesis using py_exec_frame(1) [OF fault] that
      by (simp add: execute_repl_code_fault)
  next
    case (abort a f g' captured st1)
    then show ?thesis using py_exec_frame(1) [OF abort(1)] that by simp
  qed
qed

lemma run_blocks_Cons:
  "run_blocks llm py (code # blocks) st =
     (case fst (execute_repl_code llm py st code) of
        Inl a \<Rightarrow> (Some a, snd (execute_repl_code llm py st code))
      | Inr output \<Rightarrow> run_blocks llm py blocks (snd (execute_repl_code llm py st code)))"
  by (simp split: prod.splits sum.splits)

lemma run_blocks_append:
  "run_blocks llm py (bs @ cs) st =
     (case run_blocks llm py bs st of
        (Some a, st') \<Rightarrow> (Some a, st')
      | (None, st') \<Rightarrow> run_blocks llm py cs st')"
  by (induction bs arbitrary: st) (simp_all split: prod.splits sum.splits)

text \<open>A property of the state that every execution pass keeps is kept by the passes of
  one response.\<close>

lemma run_blocks_invariant:
  "P st \<Longrightarrow> (\<forall>s code. P s \<longrightarrow> P (snd (execute_repl_code llm py s code))) \<Longrightarrow>
   P (snd (run_blocks llm py blocks st))"
proof (induction blocks arbitrary: st)
  case Nil
  then show ?case by simp
next
  case (Cons code blocks)
  let ?s = "snd (execute_repl_code llm py st code)"
  have s: "P ?s" using Cons.prems by blast
  show ?case
  proof (cases "fst (execute_repl_code llm py st code)")
    case (Inl a)
    then show ?thesis using s by (simp only: run_blocks_Cons sum.case snd_conv)
  next
    case (Inr outp)
    then have "run_blocks llm py (code # blocks) st = run_blocks llm py blocks ?s"
      by (simp only: run_blocks_Cons sum.case)
    then show ?thesis using Cons.IH [OF s Cons.prems(2)] by simp
  qed
qed

lemma run_blocks_frame:
  "context_str (snd (run_blocks llm py blocks st)) = context_str st"
  "counters_le st (snd (run_blocks llm py blocks st))"
  "set (dict_keys (variables st))
     \<subseteq> set (dict_keys (variables (snd (run_blocks llm py blocks st))))"
  "distinct (dict_keys (variables st)) \<Longrightarrow>
     distinct (dict_keys (variables (snd (run_blocks llm py blocks st))))"
proof -
  show "context_str (snd (run_blocks llm py blocks st)) = context_str st"
    by (rule run_blocks_invariant [where P = "\<lambda>s. context_str s = context_str st"])
       (simp_all add: execute_repl_code_frame(1))
  show "counters_le st (snd (run_blocks llm py blocks st))"
    by (rule run_blocks_invariant [where P = "\<lambda>s. counters_le st s"])
       (use counters_le_trans execute_repl_code_frame(2) counters_le_refl in blast)+
  show "set (dict_keys (variables st))
     \<subseteq> set (dict_keys (variables (snd (run_blocks llm py blocks st))))"
    by (rule run_blocks_invariant
          [where P = "\<lambda>s. set (dict_keys (variables st)) \<subseteq> set (dict_keys (variables s))"])
       (use execute_repl_code_frame(3) in blast)+
  show "distinct (dict_keys (variables (snd (run_blocks llm py blocks st))))"
    if "distinct (dict_keys (variables st))"
    by (rule run_blocks_invariant [where P = "\<lambda>s. distinct (dict_keys (variables s))"])
       (use that execute_repl_code_frame(4) in blast)+
qed


subsection \<open>One unfolding of the loop, and what the loop preserves\<close>

lemma run_loop_stop:
  "\<not> i < N \<Longrightarrow> run_loop llm py N q i p sent st =
     \<lparr>end_state = st, end_iteration = i, final_answer = None, root_prompts = sent,
      aborted = None\<rparr>"
  by (simp add: run_loop.simps)

lemma run_loop_raise:
  assumes "i < N"
    and "check_final_answer
           (st\<lparr>total_tokens_root := total_tokens_root st + (word_count p + 100)\<rparr>) (llm p False)
         = Inl a"
  shows "run_loop llm py N q i p sent st =
     \<lparr>end_state = st\<lparr>total_tokens_root := total_tokens_root st + (word_count p + 100)\<rparr>,
      end_iteration = i + 1, final_answer = None, root_prompts = sent @ [p],
      aborted = Some a\<rparr>"
  using assms by (subst run_loop.simps) (simp add: Let_def)

lemma run_loop_break:
  assumes "i < N"
    and "check_final_answer
           (st\<lparr>total_tokens_root := total_tokens_root st + (word_count p + 100)\<rparr>) (llm p False)
         = Inr final"
    and "truthy final"
  shows "run_loop llm py N q i p sent st =
     \<lparr>end_state = st\<lparr>total_tokens_root := total_tokens_root st + (word_count p + 100)\<rparr>,
      end_iteration = i + 1, final_answer = final, root_prompts = sent @ [p],
      aborted = None\<rparr>"
  using assms by (subst run_loop.simps) (simp add: Let_def)

lemma run_loop_abort:
  assumes "i < N"
    and "check_final_answer
           (st\<lparr>total_tokens_root := total_tokens_root st + (word_count p + 100)\<rparr>) (llm p False)
         = Inr final"
    and "\<not> truthy final"
    and "run_blocks llm py (extract_code_blocks (llm p False))
           (st\<lparr>total_tokens_root := total_tokens_root st + (word_count p + 100)\<rparr>)
         = (Some a, st2)"
  shows "run_loop llm py N q i p sent st =
     \<lparr>end_state = st2, end_iteration = i + 1, final_answer = None, root_prompts = sent @ [p],
      aborted = Some a\<rparr>"
  using assms by (subst run_loop.simps) (simp add: Let_def)

lemma run_loop_continue:
  assumes "i < N"
    and "check_final_answer
           (st\<lparr>total_tokens_root := total_tokens_root st + (word_count p + 100)\<rparr>) (llm p False)
         = Inr final"
    and "\<not> truthy final"
    and "run_blocks llm py (extract_code_blocks (llm p False))
           (st\<lparr>total_tokens_root := total_tokens_root st + (word_count p + 100)\<rparr>)
         = (None, st2)"
  shows "run_loop llm py N q i p sent st =
     run_loop llm py N q (i + 1) (next_prompt (output_buffer st2) q) (sent @ [p]) st2"
  using assms by (subst run_loop.simps) (simp add: Let_def)

lemma root_step_counters:
  "counters_le st (st\<lparr>total_tokens_root := total_tokens_root st + (word_count p + 100)\<rparr>)"
  using word_count_nonneg [of p] by (simp add: counters_le_def)

text \<open>A property of the state that the root step of an iteration and every execution
  pass keep holds of the state the loop ends in.\<close>

lemma run_loop_invariant:
  "P st \<Longrightarrow>
   (\<forall>s p. P s \<longrightarrow> P (s\<lparr>total_tokens_root := total_tokens_root s + (word_count p + 100)\<rparr>)) \<Longrightarrow>
   (\<forall>s code. P s \<longrightarrow> P (snd (execute_repl_code llm py s code))) \<Longrightarrow>
   P (end_state (run_loop llm py N q i p sent st))"
proof (induction llm py N q i p sent st rule: run_loop.induct)
  case (1 llm py N q i p sent st)
  let ?st1 = "st\<lparr>total_tokens_root := total_tokens_root st + (word_count p + 100)\<rparr>"
  have p1: "P ?st1" using "1.prems"(1,2) by blast
  show ?case
  proof (cases "i < N")
    case False
    then show ?thesis using "1.prems"(1) by (simp add: run_loop_stop)
  next
    case True
    show ?thesis
    proof (cases "check_final_answer ?st1 (llm p False)")
      case (Inl a)
      show ?thesis
        using p1 by (simp add: run_loop_raise [where llm=llm and p=p and st=st, OF True Inl])
    next
      case (Inr final)
      show ?thesis
      proof (cases "truthy final")
        case yes: True
        show ?thesis
          using p1
          by (simp add: run_loop_break [where llm=llm and p=p and st=st, OF True Inr yes])
      next
        case no: False
        obtain x st2 where
          rb: "run_blocks llm py (extract_code_blocks (llm p False)) ?st1 = (x, st2)"
          by (cases "run_blocks llm py (extract_code_blocks (llm p False)) ?st1")
        have "P (snd (run_blocks llm py (extract_code_blocks (llm p False)) ?st1))"
          using p1 "1.prems"(3) by (rule run_blocks_invariant)
        then have p2: "P st2" using rb by simp
        show ?thesis
        proof (cases x)
          case (Some a)
          show ?thesis
            using p2 rb
            by (simp add: run_loop_abort [where llm=llm and p=p and st=st, OF True Inr no]
                  Some)
        next
          case None
          note rb' = rb [unfolded None]
          from "1.IH" [OF True refl refl Inr no rb' [symmetric] refl p2 "1.prems"(2,3)]
          show ?thesis
            by (simp only: run_loop_continue [where llm=llm and p=p and st=st,
                  OF True Inr no rb'])
        qed
      qed
    qed
  qed
qed

lemma run_loop_frame:
  "context_str (end_state (run_loop llm py N q i p sent st)) = context_str st
   \<and> counters_le st (end_state (run_loop llm py N q i p sent st))
   \<and> set (dict_keys (variables st))
        \<subseteq> set (dict_keys (variables (end_state (run_loop llm py N q i p sent st))))
   \<and> (distinct (dict_keys (variables st)) \<longrightarrow>
        distinct (dict_keys (variables (end_state (run_loop llm py N q i p sent st)))))"
proof (intro conjI impI)
  show "context_str (end_state (run_loop llm py N q i p sent st)) = context_str st"
    by (rule run_loop_invariant [where P = "\<lambda>s. context_str s = context_str st"])
       (simp_all add: execute_repl_code_frame(1))
  show "counters_le st (end_state (run_loop llm py N q i p sent st))"
    by (rule run_loop_invariant [where P = "\<lambda>s. counters_le st s"])
       (use counters_le_trans execute_repl_code_frame(2) counters_le_refl root_step_counters
         in blast)+
  show "set (dict_keys (variables st))
        \<subseteq> set (dict_keys (variables (end_state (run_loop llm py N q i p sent st))))"
    by (rule run_loop_invariant
          [where P = "\<lambda>s. set (dict_keys (variables st)) \<subseteq> set (dict_keys (variables s))"])
       (use execute_repl_code_frame(3) in \<open>auto simp: subset_iff\<close>)
  show "distinct (dict_keys (variables (end_state (run_loop llm py N q i p sent st))))"
    if "distinct (dict_keys (variables st))"
    by (rule run_loop_invariant [where P = "\<lambda>s. distinct (dict_keys (variables s))"])
       (use that execute_repl_code_frame(4) in auto)
qed


subsection \<open>The search functions against what a response contains\<close>

lemma until_fence_sound:
  "until_fence s = Some (b, rest) \<Longrightarrow> s = b @ ''```'' @ rest"
proof (induction s arbitrary: b)
  case Nil
  then show ?case by simp
next
  case (Cons a s)
  show ?case
  proof (cases "prefix ''```'' (a # s)")
    case True
    then have "until_fence (a # s) = Some ([], drop 3 (a # s))"
      by (simp only: until_fence.simps if_True)
    with Cons.prems have b: "b = []" and r: "rest = drop 3 (a # s)" by simp_all
    from True obtain zs where zs: "a # s = ''```'' @ zs" by (auto simp: prefix_def)
    then have "drop 3 (a # s) = zs" by simp
    with zs b r show ?thesis by simp
  next
    case False
    then have "until_fence (a # s)
        = map_option (\<lambda>(body, rest). (a # body, rest)) (until_fence s)"
      by (simp only: until_fence.simps if_False)
    with Cons.prems obtain b' where b': "until_fence s = Some (b', rest)" "b = a # b'"
      by (cases "until_fence s") (auto split: prod.splits)
    from Cons.IH [OF b'(1)] b'(2) show ?thesis by simp
  qed
qed

lemma until_fence_complete:
  "s = a @ ''```'' @ b \<Longrightarrow> until_fence s \<noteq> None"
proof (induction a arbitrary: s)
  case Nil
  then show ?case by simp
next
  case (Cons x a)
  then obtain s' where s: "s = x # s'" and s': "s' = a @ ''```'' @ b" by simp
  from Cons.IH [OF s'] have "until_fence s' \<noteq> None" .
  then show ?case unfolding s by (auto simp del: Cons_prefix_Cons)
qed

lemma extract_code_blocks_sound:
  "extract_code_blocks r \<noteq> [] \<Longrightarrow> has_code_block r"
proof (induction r)
  case Nil
  then show ?case by simp
next
  case (Cons c cs)
  define m :: string where "m = ''```repl\<newline>''"
  have lm: "length m = 8" by (simp add: m_def)
  have step: "extract_code_blocks (c # cs) =
     (if prefix m (c # cs) then
        (case until_fence (drop 8 (c # cs)) of
           Some (body, rest) \<Rightarrow> body # extract_code_blocks rest
         | None \<Rightarrow> extract_code_blocks cs)
      else extract_code_blocks cs)"
    unfolding m_def by (rule extract_code_blocks.simps)
  have lift: "has_code_block cs \<Longrightarrow> has_code_block (c # cs)"
  proof -
    assume "has_code_block cs"
    then obtain pre body post where "cs = pre @ ''```repl\<newline>'' @ body @ ''```'' @ post"
      unfolding has_code_block_def by blast
    then have "c # cs = (c # pre) @ ''```repl\<newline>'' @ body @ ''```'' @ post" by simp
    then show ?thesis unfolding has_code_block_def by blast
  qed
  show ?case
  proof (cases "prefix m (c # cs)")
    case True
    then obtain zs where zs: "c # cs = m @ zs" by (auto simp: prefix_def)
    then have dz: "drop 8 (c # cs) = zs" using lm by simp
    show ?thesis
    proof (cases "until_fence zs")
      case None
      with True dz step Cons.prems have "extract_code_blocks cs \<noteq> []" by simp
      from lift [OF Cons.IH [OF this]] show ?thesis .
    next
      case (Some br)
      obtain body rest where br: "br = (body, rest)" by (cases br)
      with Some until_fence_sound have "zs = body @ ''```'' @ rest" by blast
      with zs have "c # cs = [] @ ''```repl\<newline>'' @ body @ ''```'' @ rest"
        by (simp add: m_def)
      then show ?thesis unfolding has_code_block_def by blast
    qed
  next
    case False
    with step Cons.prems have "extract_code_blocks cs \<noteq> []" by simp
    from lift [OF Cons.IH [OF this]] show ?thesis .
  qed
qed

lemma extract_code_blocks_complete:
  "r = pre @ ''```repl\<newline>'' @ body @ ''```'' @ post \<Longrightarrow> extract_code_blocks r \<noteq> []"
proof (induction pre arbitrary: r)
  case Nil
  then have r: "r = ''```repl\<newline>'' @ body @ ''```'' @ post" by simp
  have "drop 8 r = body @ ''```'' @ post" unfolding r by simp
  then have "until_fence (drop 8 r) \<noteq> None" by (rule until_fence_complete)
  then show ?case unfolding r by auto
next
  case (Cons a pre)
  then obtain cs where r: "r = a # cs"
    and cs: "cs = pre @ ''```repl\<newline>'' @ body @ ''```'' @ post" by simp
  from Cons.IH [OF cs] have ih: "extract_code_blocks cs \<noteq> []" .
  define m :: string where "m = ''```repl\<newline>''"
  have step: "extract_code_blocks (a # cs) =
     (if prefix m (a # cs) then
        (case until_fence (drop 8 (a # cs)) of
           Some (body, rest) \<Rightarrow> body # extract_code_blocks rest
         | None \<Rightarrow> extract_code_blocks cs)
      else extract_code_blocks cs)"
    unfolding m_def by (rule extract_code_blocks.simps)
  show ?case unfolding r step using ih by (auto split: option.splits)
qed

lemma has_code_block_iff: "has_code_block r \<longleftrightarrow> extract_code_blocks r \<noteq> []"
  using extract_code_blocks_sound extract_code_blocks_complete
  unfolding has_code_block_def by blast

lemma has_literal_marker_iff: "has_literal_marker r \<longleftrightarrow> search_final r \<noteq> None"
proof
  assume "has_literal_marker r"
  then show "search_final r \<noteq> None"
    unfolding has_literal_marker_def using search_final_complete by blast
next
  assume "search_final r \<noteq> None"
  then obtain g where "search_final r = Some g" by blast
  from search_final_sound [OF this] show "has_literal_marker r"
    unfolding has_literal_marker_def by blast
qed

lemma has_variable_marker_iff: "has_variable_marker r \<longleftrightarrow> search_var r \<noteq> None"
proof
  assume "has_variable_marker r"
  then show "search_var r \<noteq> None"
    unfolding has_variable_marker_def using search_var_complete by blast
next
  assume "search_var r \<noteq> None"
  then obtain n where "search_var r = Some n" by blast
  from search_var_sound [OF this] show "has_variable_marker r"
    unfolding has_variable_marker_def by blast
qed

lemma no_marker_no_answer:
  "\<not> has_literal_marker r \<Longrightarrow> \<not> has_variable_marker r \<Longrightarrow> check_final_answer s r = Inr None"
  by (simp add: has_literal_marker_iff has_variable_marker_iff check_final_answer_def)

subsection \<open>Counters, budget and variables\<close>

text \<open>
  \<^bold>\<open>C6.\<close> The three counters start at \<open>0\<close>; every operation that updates the state (a
  sub-call, an execution pass, the passes of one response, the root step of an iteration,
  the whole loop) leaves each of them at least as large as it found it, also when it is
  left through an exception; the counters at the end of the loop are not negative, and
  so are those of the dictionary \<open>run\<close> returns when it returns.
\<close>

theorem counters_never_decrease:
  "sub_call_count (init_state c) = 0 \<and> total_tokens_root (init_state c) = 0
   \<and> total_tokens_sub (init_state c) = 0
   \<and> counters_le st (snd (llm_query llm st prompt))
   \<and> counters_le st (snd (execute_repl_code llm py st code))
   \<and> counters_le st (snd (run_blocks llm py blocks st))
   \<and> counters_le st (st\<lparr>total_tokens_root := total_tokens_root st + (word_count p + 100)\<rparr>)
   \<and> counters_le st (end_state (run_loop llm py N q i p sent st))
   \<and> 0 \<le> sub_calls (summary (run_trace llm py N c q))
   \<and> 0 \<le> root_tokens (summary (run_trace llm py N c q))
   \<and> 0 \<le> sub_tokens (summary (run_trace llm py N c q))
   \<and> (case run llm py N c q of
         Inl a \<Rightarrow> aborted (run_trace llm py N c q) = Some a
       | Inr r \<Rightarrow> 0 \<le> sub_calls r \<and> 0 \<le> root_tokens r \<and> 0 \<le> sub_tokens r)"
proof -
  have "counters_le (init_state c) (end_state (run_trace llm py N c q))"
    unfolding run_trace_def using run_loop_frame by blast
  then have s: "0 \<le> sub_calls (summary (run_trace llm py N c q))
      \<and> 0 \<le> root_tokens (summary (run_trace llm py N c q))
      \<and> 0 \<le> sub_tokens (summary (run_trace llm py N c q))"
    by (simp add: counters_le_def summary_def init_state_def)
  then have r: "(case run llm py N c q of
         Inl a \<Rightarrow> aborted (run_trace llm py N c q) = Some a
       | Inr r \<Rightarrow> 0 \<le> sub_calls r \<and> 0 \<le> root_tokens r \<and> 0 \<le> sub_tokens r)"
    by (cases "aborted (run_trace llm py N c q)") (simp_all add: run_def)
  have "counters_le st (end_state (run_loop llm py N q i p sent st))"
    using run_loop_frame by blast
  with s r show ?thesis
    using llm_query_counters [of st llm prompt] execute_repl_code_frame(2) [of st llm py code]
      run_blocks_frame(2) [of st llm py blocks] root_step_counters [of st p]
    by (simp add: init_state_def)
qed




lemma map_of_dict_update:
  "distinct (map fst other) \<Longrightarrow>
   map_of (dict_update d other) k
     = (case map_of other k of Some v \<Rightarrow> Some v | None \<Rightarrow> map_of d k)"
  unfolding dict_update_def
proof (induction other arbitrary: d)
  case Nil
  then show ?case by simp
next
  case (Cons a other)
  obtain k0 v0 where a: "a = (k0, v0)" by (cases a)
  from Cons.prems a have d: "distinct (map fst other)" and nk: "map_of other k0 = None"
    by (auto simp: map_of_eq_None_iff)
  show ?case
    using Cons.IH [OF d] nk a
    by (auto simp: update_conv' split: option.splits)
qed

text \<open>
  \<^bold>\<open>C10.\<close> After a pass that \<open>exec\<close> completes, a name \<open>k\<close> outside the six reserved names
  holds in \<open>variables\<close> whatever the final namespace \<open>g'\<close> of the pass binds it to (and
  its old value when \<open>g'\<close> does not bind it); the six reserved names are left as they
  were. What \<open>variables\<close> then holds is in the namespace of the next pass.
\<close>

theorem successful_pass_saves_every_global:
  assumes "py_exec llm py code (build_globals st) st = (Completed, g', captured, st1)"
  shows "map_of (variables (snd (execute_repl_code llm py st code))) k =
           (if k \<in> {''context'', ''llm_query'', ''print'', ''re'', ''json'', ''__builtins__''}
            then map_of (variables st) k
            else case map_of g' k of Some v \<Rightarrow> Some v | None \<Rightarrow> map_of (variables st) k)
       \<and> (distinct (dict_keys (variables st)) \<longrightarrow>
            map_of (variables (snd (execute_repl_code llm py st code))) k = Some v \<longrightarrow>
            map_of (build_globals (snd (execute_repl_code llm py st code))) k = Some v)"
proof -
  let ?st' = "snd (execute_repl_code llm py st code)"
  have dg: "distinct (map fst g')"
    using py_exec_distinct [OF assms distinct_build_globals] .
  have v: "variables ?st' = save_variables g' (variables st)"
    by (simp add: execute_repl_code_success [OF assms])
  have r: "set reserved_names
      = {''context'', ''llm_query'', ''print'', ''re'', ''json'', ''__builtins__''}"
    by (simp add: reserved_names_def)
  have one: "map_of (variables ?st') k =
           (if k \<in> {''context'', ''llm_query'', ''print'', ''re'', ''json'', ''__builtins__''}
            then map_of (variables st) k
            else case map_of g' k of Some v \<Rightarrow> Some v | None \<Rightarrow> map_of (variables st) k)"
    unfolding v map_of_save_variables [OF dg] r ..
  have two: "map_of (build_globals ?st') k = Some v"
    if "distinct (dict_keys (variables st))" "map_of (variables ?st') k = Some v"
  proof -
    have "distinct (map fst (variables ?st'))"
      using execute_repl_code_frame(4) [OF that(1), of llm py code] by (simp add: dict_keys_def)
    from map_of_dict_update [OF this] that(2) show ?thesis
      by (simp add: build_globals_def)
  qed
  from one two show ?thesis by blast
qed

lemma py_exec_collapse:
  "fst (py_exec llm py code g st) = f \<Longrightarrow>
   py_exec llm py code g st
     = (f, fst (snd (py_exec llm py code g st)), fst (snd (snd (py_exec llm py code g st))),
        snd (snd (snd (py_exec llm py code g st))))"
  by (metis prod.collapse)

theorem successful_pass_saves_every_global_witness:
  "map_of (variables (snd (execute_repl_code (stub_agent [] []) sample_python (init_state ''data'')
       ''import sys\<newline>for i in range(3):\<newline>    pass\<newline>''))) ''i'' = Some (IntV 2)
   \<and> map_of (build_globals (snd (execute_repl_code (stub_agent [] []) sample_python
       (init_state ''data'') ''import sys\<newline>for i in range(3):\<newline>    pass\<newline>''))) ''i''
       = Some (IntV 2)
   \<and> map_of (variables (snd (execute_repl_code (stub_agent [] []) sample_python (init_state ''data'')
       ''import sys\<newline>for i in range(3):\<newline>    pass\<newline>''))) ''__builtins__'' = None
   \<and> dict_keys (variables (snd (execute_repl_code (stub_agent [] []) sample_python
       (init_state ''data'') ''import sys\<newline>for i in range(3):\<newline>    pass\<newline>'')))
       = [''sys'', ''i'']
   \<and> check_final_answer (snd (execute_repl_code (stub_agent [] []) sample_python
       (init_state ''data'') ''import sys\<newline>for i in range(3):\<newline>    pass\<newline>''))
       ''FINAL_VAR(i)'' = Inr (Some ''2'')"
proof -
  let ?code = "''import sys\<newline>for i in range(3):\<newline>    pass\<newline>''"
  let ?r = "py_exec (stub_agent [] []) sample_python ?code
              (build_globals (init_state ''data'')) (init_state ''data'')"
  let ?st' = "snd (execute_repl_code (stub_agent [] []) sample_python (init_state ''data'') ?code)"
  have "fst ?r = Completed" by code_simp
  then have pe: "?r = (Completed, fst (snd ?r), fst (snd (snd ?r)), snd (snd (snd ?r)))"
    by (rule py_exec_collapse)
  have gi: "map_of (fst (snd ?r)) ''i'' = Some (IntV 2)" by code_simp
  have d0: "distinct (dict_keys (variables (init_state ''data'')))"
    by (simp add: init_state_def dict_keys_def)
  have v0: "map_of (variables (init_state ''data'')) k = None" for k
    by (simp add: init_state_def)
  note thm_i = successful_pass_saves_every_global [OF pe, of "''i''" "IntV 2"]
  note thm_b = successful_pass_saves_every_global [OF pe, of "''__builtins__''" "IntV 2"]
  from thm_i gi have i: "map_of (variables ?st') ''i'' = Some (IntV 2)"
    by simp
  from thm_i d0 i have bi: "map_of (build_globals ?st') ''i'' = Some (IntV 2)"
    by blast
  from thm_b v0 have b: "map_of (variables ?st') ''__builtins__'' = None"
    by simp
  have k: "dict_keys (variables ?st') = [''sys'', ''i'']" by code_simp
  have f: "check_final_answer ?st' ''FINAL_VAR(i)'' = Inr (Some ''2'')" by code_simp
  from i bi b k f show ?thesis by blast
qed






subsection \<open>Faults, idle iterations and the prompts\<close>

text \<open>
  \<^bold>\<open>C2.\<close> When \<open>exec\<close> raises an \<open>Exception\<close> for which \<open>str(e)\<close> gives the text \<open>msg\<close>, the
  pass returns what the block had printed followed by \<open>Error: \<close> and \<open>msg\<close>, and stores
  it in \<open>output_buffer\<close>; \<open>variables\<close> binds the names it bound before the pass to the
  objects it bound them to, so that a name the block bound before the fault is not
  saved; the store of objects is the one the block left, so that what the block changed
  in place before the fault stays changed; and when the block is the last one of a
  response without an answer, the loop goes on with iteration \<open>i + 1\<close> and a next prompt
  built from that output.
\<close>

theorem fault_is_contained:
  assumes "py_exec llm py code (build_globals s) s
             = (Raised (ExceptionObj (Some msg)), g', captured, s1)"
  shows "execute_repl_code llm py s code
           = (Inr (captured @ ''Error: '' @ msg),
              s1\<lparr>output_buffer := captured @ ''Error: '' @ msg\<rparr>)
       \<and> variables (snd (execute_repl_code llm py s code)) = variables s
       \<and> heap (snd (execute_repl_code llm py s code)) = heap s1
       \<and> (i < N \<longrightarrow>
            check_final_answer
                (st\<lparr>total_tokens_root := total_tokens_root st + (word_count p + 100)\<rparr>)
                (llm p False) = Inr final \<longrightarrow>
            \<not> truthy final \<longrightarrow>
            extract_code_blocks (llm p False) = blocks @ [code] \<longrightarrow>
            run_blocks llm py blocks
                (st\<lparr>total_tokens_root := total_tokens_root st + (word_count p + 100)\<rparr>)
              = (None, s) \<longrightarrow>
            run_loop llm py N q i p sent st =
              run_loop llm py N q (i + 1) (next_prompt (captured @ ''Error: '' @ msg) q)
                (sent @ [p]) (s1\<lparr>output_buffer := captured @ ''Error: '' @ msg\<rparr>))"
proof (intro conjI impI)
  show ex: "execute_repl_code llm py s code
           = (Inr (captured @ ''Error: '' @ msg),
              s1\<lparr>output_buffer := captured @ ''Error: '' @ msg\<rparr>)"
    using assms by (rule execute_repl_code_fault)
  show "variables (snd (execute_repl_code llm py s code)) = variables s"
    unfolding ex using py_exec_frame(1) [OF assms] by simp
  show "heap (snd (execute_repl_code llm py s code)) = heap s1"
    unfolding ex by simp
  assume lt: "i < N"
    and cf: "check_final_answer
                (st\<lparr>total_tokens_root := total_tokens_root st + (word_count p + 100)\<rparr>)
                (llm p False) = Inr final"
    and no: "\<not> truthy final"
    and bl: "extract_code_blocks (llm p False) = blocks @ [code]"
    and s: "run_blocks llm py blocks
                (st\<lparr>total_tokens_root := total_tokens_root st + (word_count p + 100)\<rparr>)
              = (None, s)"
  have "run_blocks llm py (extract_code_blocks (llm p False))
          (st\<lparr>total_tokens_root := total_tokens_root st + (word_count p + 100)\<rparr>)
        = (None, s1\<lparr>output_buffer := captured @ ''Error: '' @ msg\<rparr>)"
    unfolding bl run_blocks_append s using ex by simp
  from run_loop_continue [where llm=llm and p=p and st=st, OF lt cf no this]
  show "run_loop llm py N q i p sent st =
              run_loop llm py N q (i + 1) (next_prompt (captured @ ''Error: '' @ msg) q)
                (sent @ [p]) (s1\<lparr>output_buffer := captured @ ''Error: '' @ msg\<rparr>)"
    by simp
qed

theorem fault_is_contained_witness:
  "fst (execute_repl_code (stub_agent ''```repl\<newline>x = 5\<newline>1/0\<newline>```'' ''Let me think.'')
         sample_python
         (init_state ''data''
            \<lparr>total_tokens_root := total_tokens_root (init_state ''data'')
                 + (word_count (system_prompt ''data'' ''q'') + 100)\<rparr>)
         ''x = 5\<newline>1/0\<newline>'') = Inr ''Error: division by zero''
   \<and> variables (snd (execute_repl_code
         (stub_agent ''```repl\<newline>x = 5\<newline>1/0\<newline>```'' ''Let me think.'') sample_python
         (init_state ''data''
            \<lparr>total_tokens_root := total_tokens_root (init_state ''data'')
                 + (word_count (system_prompt ''data'' ''q'') + 100)\<rparr>)
         ''x = 5\<newline>1/0\<newline>'')) = []
   \<and> run_loop (stub_agent ''```repl\<newline>x = 5\<newline>1/0\<newline>```'' ''Let me think.'') sample_python 2 ''q''
       0 (system_prompt ''data'' ''q'') [] (init_state ''data'')
     = run_loop (stub_agent ''```repl\<newline>x = 5\<newline>1/0\<newline>```'' ''Let me think.'') sample_python 2 ''q''
         (0 + 1) (next_prompt ([] @ ''Error: '' @ ''division by zero'') ''q'')
         ([] @ [system_prompt ''data'' ''q''])
         (init_state ''data''
            \<lparr>total_tokens_root := total_tokens_root (init_state ''data'')
                 + (word_count (system_prompt ''data'' ''q'') + 100),
             output_buffer := [] @ ''Error: '' @ ''division by zero''\<rparr>)
   \<and> fst (execute_repl_code (stub_agent [] []) sample_python
         (init_state ''data''\<lparr>variables := [(''lst'', RefV 0)], heap := [(0, Some ''[1]'')]\<rparr>)
         ''lst.append(2)\<newline>1/0\<newline>'') = Inr ''Error: division by zero''
   \<and> variables (snd (execute_repl_code (stub_agent [] []) sample_python
         (init_state ''data''\<lparr>variables := [(''lst'', RefV 0)], heap := [(0, Some ''[1]'')]\<rparr>)
         ''lst.append(2)\<newline>1/0\<newline>'')) = [(''lst'', RefV 0)]
   \<and> heap (snd (execute_repl_code (stub_agent [] []) sample_python
         (init_state ''data''\<lparr>variables := [(''lst'', RefV 0)], heap := [(0, Some ''[1]'')]\<rparr>)
         ''lst.append(2)\<newline>1/0\<newline>'')) = [(0, Some ''[1, 2]'')]
   \<and> check_final_answer (snd (execute_repl_code (stub_agent [] []) sample_python
         (init_state ''data''\<lparr>variables := [(''lst'', RefV 0)], heap := [(0, Some ''[1]'')]\<rparr>)
         ''lst.append(2)\<newline>1/0\<newline>'')) ''FINAL_VAR(lst)'' = Inr (Some ''[1, 2]'')"
proof -
  let ?A = "stub_agent ''```repl\<newline>x = 5\<newline>1/0\<newline>```'' ''Let me think.''"
  let ?p = "system_prompt ''data'' ''q''"
  let ?s = "init_state ''data''
            \<lparr>total_tokens_root := total_tokens_root (init_state ''data'') + (word_count ?p + 100)\<rparr>"
  let ?code = "''x = 5\<newline>1/0\<newline>''"
  let ?r = "py_exec ?A sample_python ?code (build_globals ?s) ?s"
  have resp: "?A ?p False = ''```repl\<newline>x = 5\<newline>1/0\<newline>```''"
    by (simp add: stub_agent_def system_prompt_def)
  have "exec_script ?A (Store ''x'' (IntV 5) (Raise (ExceptionObj (Some ''division by zero''))))
          g [] ?s
      = (Raised (ExceptionObj (Some ''division by zero'')), AList.update ''x'' (IntV 5) g, [], ?s)"
    for g
    by simp
  then have pe: "?r = (Raised (ExceptionObj (Some ''division by zero'')), fst (snd ?r), [], ?s)"
    by (simp add: py_exec_def sample_python_def Let_def)
  have lt: "(0::int) < 2" by simp
  have cf: "check_final_answer ?s (?A ?p False) = Inr None"
    unfolding resp by (simp add: check_final_answer_def match_var_at_def)
  have no: "\<not> truthy None" by (simp add: truthy_def)
  have bl: "extract_code_blocks (?A ?p False) = [] @ [?code]"
    unfolding resp by simp
  have s: "run_blocks ?A sample_python [] ?s = (None, ?s)" by simp
  note t = fault_is_contained [where llm = ?A and py = sample_python and code = ?code
      and s = ?s and msg = "''division by zero''" and g' = "fst (snd ?r)" and captured = "[]"
      and ?s1.0 = ?s and i = 0 and N = 2 and st = "init_state ''data''" and p = ?p
      and final = None and blocks = "[]" and q = "''q''" and sent = "[]", OF pe]
  from t have a: "fst (execute_repl_code ?A sample_python ?s ?code)
      = Inr ''Error: division by zero''"
    by simp
  from t have b: "variables (snd (execute_repl_code ?A sample_python ?s ?code)) = []"
    by (simp add: init_state_def)
  from t lt cf no bl s
  have c: "run_loop ?A sample_python 2 ''q'' 0 ?p [] (init_state ''data'')
      = run_loop ?A sample_python 2 ''q'' (0 + 1)
          (next_prompt ([] @ ''Error: '' @ ''division by zero'') ''q'') ([] @ [?p])
          (?s\<lparr>output_buffer := [] @ ''Error: '' @ ''division by zero''\<rparr>)"
    by blast
  let ?B = "stub_agent [] []"
  let ?s0 = "init_state ''data''\<lparr>variables := [(''lst'', RefV 0)], heap := [(0, Some ''[1]'')]\<rparr>"
  let ?code2 = "''lst.append(2)\<newline>1/0\<newline>''"
  let ?r2 = "py_exec ?B sample_python ?code2 (build_globals ?s0) ?s0"
  have "fst ?r2 = Raised (ExceptionObj (Some ''division by zero''))" by code_simp
  then have pe2: "?r2 = (Raised (ExceptionObj (Some ''division by zero'')), fst (snd ?r2),
      fst (snd (snd ?r2)), snd (snd (snd ?r2)))"
    by (rule py_exec_collapse)
  have cap2: "fst (snd (snd ?r2)) = []" by code_simp
  have h2: "heap (snd (snd (snd ?r2))) = [(0, Some ''[1, 2]'')]" by code_simp
  note t2 = fault_is_contained [where llm = ?B and py = sample_python and code = ?code2
      and s = ?s0, OF pe2]
  note t2a = t2 [THEN conjunct1]
  note t2b = t2 [THEN conjunct2, THEN conjunct1]
  note t2c = t2 [THEN conjunct2, THEN conjunct2, THEN conjunct1]
  from t2a cap2 have d: "fst (execute_repl_code ?B sample_python ?s0 ?code2)
      = Inr ''Error: division by zero''"
    by simp
  from t2b have e: "variables (snd (execute_repl_code ?B sample_python ?s0 ?code2))
      = [(''lst'', RefV 0)]"
    by simp
  from t2c h2 have f: "heap (snd (execute_repl_code ?B sample_python ?s0 ?code2))
      = [(0, Some ''[1, 2]'')]"
    by simp
  have g: "check_final_answer (snd (execute_repl_code ?B sample_python ?s0 ?code2))
      ''FINAL_VAR(lst)'' = Inr (Some ''[1, 2]'')"
    by code_simp
  from a b c d e f g show ?thesis by simp
qed

text \<open>
  The bindings a block makes before it faults are not kept: the block \<open>x = 5; 1/0\<close>
  binds \<open>x\<close> in its namespace and raises, and \<open>variables\<close> has no \<open>x\<close> afterwards. And
  not every fault is contained: an exception whose \<open>__str__\<close> cannot be called is
  caught, but formatting the error message raises again, inside the handler, and that
  exception leaves the pass and the run; and \<open>SystemExit\<close> is not caught at all.
\<close>

theorem fault_discards_bindings_counterexample:
  "fst (py_exec (stub_agent [] []) sample_python ''x = 5\<newline>1/0\<newline>''
          (build_globals (init_state ''data'')) (init_state ''data''))
     = Raised (ExceptionObj (Some ''division by zero''))
   \<and> map_of (fst (snd (py_exec (stub_agent [] []) sample_python ''x = 5\<newline>1/0\<newline>''
          (build_globals (init_state ''data'')) (init_state ''data'')))) ''x'' = Some (IntV 5)
   \<and> fst (execute_repl_code (stub_agent [] []) sample_python (init_state ''data'')
          ''x = 5\<newline>1/0\<newline>'') = Inr ''Error: division by zero''
   \<and> map_of (variables (snd (execute_repl_code (stub_agent [] []) sample_python
          (init_state ''data'') ''x = 5\<newline>1/0\<newline>''))) ''x'' = None
   \<and> fst (execute_repl_code (stub_agent [] []) sample_python (init_state ''data'')
          ''class Bad(Exception):\<newline>    __str__ = None\<newline>raise Bad()\<newline>'')
       = Inl (Uncaught ''raised by str(e)'')
   \<and> run (stub_agent
            ''```repl\<newline>class Bad(Exception):\<newline>    __str__ = None\<newline>raise Bad()\<newline>```''
            ''Let me think.'')
         sample_python 3 ''data'' ''q'' = Inl (Uncaught ''raised by str(e)'')
   \<and> fst (execute_repl_code (stub_agent [] []) sample_python (init_state ''data'')
          ''raise SystemExit(3)\<newline>'') = Inl (Uncaught ''SystemExit'')"
  by code_simp

text \<open>
  \<^bold>\<open>C3.\<close> An iteration whose response contains no literal marker, no variable marker
  and no code block goes on to iteration \<open>i + 1\<close> with the state changed in
  \<open>total_tokens_root\<close> only: \<open>variables\<close> is unchanged, \<open>output_buffer\<close> is unchanged (not
  emptied), and the next prompt is built from that unchanged buffer.
\<close>

theorem no_code_no_marker_iteration:
  assumes "i < N"
    and "\<not> has_literal_marker (llm p False)" and "\<not> has_variable_marker (llm p False)"
    and "\<not> has_code_block (llm p False)"
  shows "run_loop llm py N q i p sent st =
           run_loop llm py N q (i + 1) (next_prompt (output_buffer st) q) (sent @ [p])
             (st\<lparr>total_tokens_root := total_tokens_root st + (word_count p + 100)\<rparr>)
       \<and> variables (st\<lparr>total_tokens_root := total_tokens_root st + (word_count p + 100)\<rparr>)
           = variables st
       \<and> output_buffer (st\<lparr>total_tokens_root := total_tokens_root st + (word_count p + 100)\<rparr>)
           = output_buffer st"
proof -
  let ?st1 = "st\<lparr>total_tokens_root := total_tokens_root st + (word_count p + 100)\<rparr>"
  have cf: "check_final_answer ?st1 (llm p False) = Inr None"
    using assms(2,3) by (rule no_marker_no_answer)
  have no: "\<not> truthy None" by (simp add: truthy_def)
  have "extract_code_blocks (llm p False) = []"
    using assms(4) by (simp add: has_code_block_iff)
  then have "run_blocks llm py (extract_code_blocks (llm p False)) ?st1 = (None, ?st1)"
    by simp
  from run_loop_continue [where llm=llm and p=p and st=st, OF assms(1) cf no this]
  show ?thesis by simp
qed

theorem no_code_no_marker_iteration_witness:
  "run_loop (stub_agent ''```repl\<newline>print(context)\<newline>```'' ''Let me think.'') sample_python 2 ''q''
       1 (next_prompt ''data\<newline>'' ''q'') [system_prompt ''data'' ''q'']
       (init_state ''data''\<lparr>output_buffer := ''data\<newline>''\<rparr>)
     = run_loop (stub_agent ''```repl\<newline>print(context)\<newline>```'' ''Let me think.'') sample_python 2 ''q''
         (1 + 1)
         (next_prompt (output_buffer (init_state ''data''\<lparr>output_buffer := ''data\<newline>''\<rparr>)) ''q'')
         ([system_prompt ''data'' ''q''] @ [next_prompt ''data\<newline>'' ''q''])
         (init_state ''data''\<lparr>output_buffer := ''data\<newline>''\<rparr>
            \<lparr>total_tokens_root :=
               total_tokens_root (init_state ''data''\<lparr>output_buffer := ''data\<newline>''\<rparr>)
                 + (word_count (next_prompt ''data\<newline>'' ''q'') + 100)\<rparr>)
   \<and> variables (init_state ''data''\<lparr>output_buffer := ''data\<newline>''\<rparr>
            \<lparr>total_tokens_root :=
               total_tokens_root (init_state ''data''\<lparr>output_buffer := ''data\<newline>''\<rparr>)
                 + (word_count (next_prompt ''data\<newline>'' ''q'') + 100)\<rparr>)
       = variables (init_state ''data''\<lparr>output_buffer := ''data\<newline>''\<rparr>)
   \<and> output_buffer (init_state ''data''\<lparr>output_buffer := ''data\<newline>''\<rparr>
            \<lparr>total_tokens_root :=
               total_tokens_root (init_state ''data''\<lparr>output_buffer := ''data\<newline>''\<rparr>)
                 + (word_count (next_prompt ''data\<newline>'' ''q'') + 100)\<rparr>)
       = output_buffer (init_state ''data''\<lparr>output_buffer := ''data\<newline>''\<rparr>)"
proof (rule no_code_no_marker_iteration)
  let ?A = "stub_agent ''```repl\<newline>print(context)\<newline>```'' ''Let me think.''"
  have resp: "?A (next_prompt ''data\<newline>'' ''q'') False = ''Let me think.''"
    by (simp add: stub_agent_def next_prompt_def)
  show "(1::int) < 2" by simp
  show "\<not> has_literal_marker (?A (next_prompt ''data\<newline>'' ''q'') False)"
    unfolding resp has_literal_marker_iff by simp
  show "\<not> has_variable_marker (?A (next_prompt ''data\<newline>'' ''q'') False)"
    unfolding resp has_variable_marker_iff by (simp add: match_var_at_def)
  show "\<not> has_code_block (?A (next_prompt ''data\<newline>'' ''q'') False)"
    unfolding resp has_code_block_iff by simp
qed

text \<open>
  The buffer is not emptied: after a first iteration that prints the data and a second
  one whose response is plain text, the buffer still holds the printed data, and a
  third prompt carries it again.
\<close>

theorem stale_output_counterexample:
  "\<not> has_literal_marker ''Let me think.'' \<and> \<not> has_variable_marker ''Let me think.''
   \<and> \<not> has_code_block ''Let me think.''
   \<and> stub_agent ''```repl\<newline>print(context)\<newline>```'' ''Let me think.''
        (root_prompts (run_trace
           (stub_agent ''```repl\<newline>print(context)\<newline>```'' ''Let me think.'')
           sample_python 2 ''data'' ''q'') ! 1) False = ''Let me think.''
   \<and> end_iteration (run_trace
           (stub_agent ''```repl\<newline>print(context)\<newline>```'' ''Let me think.'')
           sample_python 2 ''data'' ''q'') = 2
   \<and> output_buffer (end_state (run_trace
           (stub_agent ''```repl\<newline>print(context)\<newline>```'' ''Let me think.'')
           sample_python 2 ''data'' ''q'')) = ''data\<newline>''
   \<and> root_prompts (run_trace
           (stub_agent ''```repl\<newline>print(context)\<newline>```'' ''Let me think.'')
           sample_python 3 ''data'' ''q'') ! 2 = next_prompt ''data\<newline>'' ''q''"
proof (intro conjI)
  show "\<not> has_literal_marker ''Let me think.''"
    unfolding has_literal_marker_iff by simp
  show "\<not> has_variable_marker ''Let me think.''"
    unfolding has_variable_marker_iff by (simp add: match_var_at_def)
  show "\<not> has_code_block ''Let me think.''"
    unfolding has_code_block_iff by simp
qed code_simp+























subsection \<open>A whole run\<close>

text \<open>
  The data \<open>Revenue: $45.2M\<close>, a first response whose code block stores the answer of a
  sub-call under \<open>answer\<close>, and a second response \<open>FINAL_VAR(answer)\<close>: the run ends in
  its second iteration with that answer, after one sub-call.
\<close>

lemma end_to_end_run:
  "final_answer (run_trace
       (stub_agent ''```repl\<newline>answer = llm_query(context)\<newline>```'' ''FINAL_VAR(answer)'')
       sample_python 5 ''Revenue: $45.2M'' ''What is revenue?'') = Some ''Revenue is $45.2M''
   \<and> (case run
       (stub_agent ''```repl\<newline>answer = llm_query(context)\<newline>```'' ''FINAL_VAR(answer)'')
       sample_python 5 ''Revenue: $45.2M'' ''What is revenue?'' of
         Inl a \<Rightarrow> False
       | Inr r \<Rightarrow> iterations r = 2 \<and> sub_calls r = 1 \<and> variable_names r = [''answer''])"
  by code_simp

end
